theory Spec2Isabelle
  imports Complex_Main
begin

section \<open>Python strings\<close>

text \<open>
  A Python \<open>str\<close> is a sequence of Unicode code points, so a string is a list of natural
  numbers (the code points), not a list of bytes. \<open>ustr\<close> reads an ASCII literal.
\<close>

type_synonym ustr = "nat list"

definition ustr :: "string \<Rightarrow> ustr" where
  "ustr s = map of_char s"

text \<open>
  \<open>str.isspace\<close>, \<open>str.strip()\<close> and the class \<open>\s\<close> of \<open>re\<close> on \<open>str\<close> patterns share one
  table of white space: the code points below.
\<close>

definition py_isspace :: "nat \<Rightarrow> bool" where
  "py_isspace c \<longleftrightarrow>
     (9 \<le> c \<and> c \<le> 13) \<or> (28 \<le> c \<and> c \<le> 32) \<or> c = 133 \<or> c = 160 \<or> c = 5760 \<or>
     (8192 \<le> c \<and> c \<le> 8202) \<or> c = 8232 \<or> c = 8233 \<or> c = 8239 \<or> c = 8287 \<or>
     c = 12288"

text \<open>\<open>s.strip(chars)\<close>, \<open>s.lstrip(chars)\<close>, \<open>s.rstrip(chars)\<close>, the set of characters as a predicate.\<close>

definition lstrip_by :: "(nat \<Rightarrow> bool) \<Rightarrow> ustr \<Rightarrow> ustr" where
  "lstrip_by P s = dropWhile P s"

definition rstrip_by :: "(nat \<Rightarrow> bool) \<Rightarrow> ustr \<Rightarrow> ustr" where
  "rstrip_by P s = rev (dropWhile P (rev s))"

definition strip_by :: "(nat \<Rightarrow> bool) \<Rightarrow> ustr \<Rightarrow> ustr" where
  "strip_by P s = rstrip_by P (lstrip_by P s)"

definition py_strip :: "ustr \<Rightarrow> ustr" where
  "py_strip s = strip_by py_isspace s"

text \<open>
  \<open>re.sub(r"[class]{n,}", r, s)\<close> for \<open>n \<ge> 1\<close>: scanning from the left, a maximal run of
  characters of the class that is at least \<open>n\<close> long is replaced by \<open>r\<close>; a shorter run
  is copied. \<open>[class]+\<close> is \<open>n = 1\<close>.
\<close>

function re_sub_class :: "nat \<Rightarrow> (nat \<Rightarrow> bool) \<Rightarrow> ustr \<Rightarrow> ustr \<Rightarrow> ustr" where
  "re_sub_class n P r [] = []"
| "re_sub_class n P r (c # cs) =
     (if P c \<and> n \<le> length (takeWhile P (c # cs))
      then r @ re_sub_class n P r (dropWhile P cs)
      else c # re_sub_class n P r cs)"
  by pat_completeness auto
termination
  by (relation "measure (\<lambda>(n, P, r, s). length s)")
     (auto simp: less_Suc_eq_le length_dropWhile_le)

text \<open>\<open>re.sub(r"[^class]", "", s)\<close>: every character outside the class is deleted.\<close>

definition re_keep_class :: "(nat \<Rightarrow> bool) \<Rightarrow> ustr \<Rightarrow> ustr" where
  "re_keep_class P s = filter P s"

definition is_lower_az :: "nat \<Rightarrow> bool" where
  "is_lower_az c \<longleftrightarrow> 97 \<le> c \<and> c \<le> 122"

definition is_upper_az :: "nat \<Rightarrow> bool" where
  "is_upper_az c \<longleftrightarrow> 65 \<le> c \<and> c \<le> 90"

definition is_digit :: "nat \<Rightarrow> bool" where
  "is_digit c \<longleftrightarrow> 48 \<le> c \<and> c \<le> 57"

definition ascii_lower :: "nat \<Rightarrow> nat" where
  "ascii_lower c = (if is_upper_az c then c + 32 else c)"

definition ascii_upper :: "nat \<Rightarrow> nat" where
  "ascii_upper c = (if is_lower_az c then c - 32 else c)"

text \<open>
  A decoded JSON document (\<open>json.load\<close>): \<open>None\<close>, a bool, a number, a string, a list
  or a dict. A dict is its list of items; \<open>json.load\<close> leaves no repeated key.
\<close>

datatype json =
    JNull
  | JBool bool
  | JNum int
  | JStr ustr
  | JArr "json list"
  | JObj "(ustr \<times> json) list"

text \<open>
  What the Python runtime brings and the repository does not define is a parameter of the
  functions that call it: \<open>str.lower\<close>, \<open>unicodedata.normalize('NFKD', _)\<close>,
  \<open>unicodedata.combining\<close>, and \<open>str()\<close> of a value that is not a string. What the proofs
  need of \<open>str.lower\<close> is stated by \<open>lower_ok\<close>: on a string of ASCII characters it lowers
  \<open>A-Z\<close> and nothing else, and it commutes with stripping white space (white space has
  no case). \<open>nfkd_ok\<close>: normalisation leaves ASCII alone.
\<close>

record py_runtime =
  lower :: "ustr \<Rightarrow> ustr"
  nfkd :: "ustr \<Rightarrow> ustr"
  combining :: "nat \<Rightarrow> nat"
  str_of :: "json \<Rightarrow> ustr"

definition lower_ok :: "(ustr \<Rightarrow> ustr) \<Rightarrow> bool" where
  "lower_ok L \<longleftrightarrow>
     (\<forall>s. (\<forall>c \<in> set s. c < 128) \<longrightarrow> L s = map ascii_lower s) \<and>
     (\<forall>s. L (py_strip s) = py_strip (L s))"


text \<open>
  The runtime on ASCII text, where it is known without its tables; used in examples
  only. It agrees with CPython on strings of ASCII characters; its \<open>str_of\<close> is right for
  \<open>None\<close> and the booleans and is not used on anything else.
\<close>

definition ascii_runtime :: py_runtime where
  "ascii_runtime =
     \<lparr> lower = map ascii_lower, nfkd = (\<lambda>s. s), combining = (\<lambda>c. 0),
       str_of = (\<lambda>v. case v of JNull \<Rightarrow> ustr ''None'' | JBool True \<Rightarrow> ustr ''True''
                   | JBool False \<Rightarrow> ustr ''False'' | _ \<Rightarrow> []) \<rparr>"


section \<open>Name derivation\<close>

subsection \<open>create-folders.py: slugify\<close>

definition is_sep_or_space :: "nat \<Rightarrow> bool" where
  "is_sep_or_space c \<longleftrightarrow> py_isspace c \<or> c = 47 \<or> c = 92"

definition is_slug_char :: "nat \<Rightarrow> bool" where
  "is_slug_char c \<longleftrightarrow> is_lower_az c \<or> is_digit c \<or> c = 95"

definition slugify :: "py_runtime \<Rightarrow> ustr \<Rightarrow> ustr" where
  "slugify U name0 =
     (let name1 = lower U (py_strip name0);
          name2 = re_sub_class 1 is_sep_or_space [95] name1;
          name3 = re_keep_class is_slug_char name2;
          name4 = re_sub_class 1 (\<lambda>c. c = 95) [95] name3;
          name5 = strip_by (\<lambda>c. c = 95) name4
      in if name5 = [] then ustr ''unnamed'' else name5)"

text \<open>
  The specification of \<open>slugify_for_directories\<close>, step by step in its own words:
  lowercase; replace runs of white space and path separators by \<open>_\<close>; delete every
  character outside \<open>[a-z0-9_]\<close>; collapse repeated \<open>_\<close>; trim \<open>_\<close> at both ends;
  \<open>unnamed\<close> when nothing is left. \<open>squeeze P r\<close> puts one \<open>r\<close> for each run of
  characters satisfying \<open>P\<close>.
\<close>

fun squeeze :: "(nat \<Rightarrow> bool) \<Rightarrow> nat \<Rightarrow> ustr \<Rightarrow> ustr" where
  "squeeze P r [] = []"
| "squeeze P r [x] = [if P x then r else x]"
| "squeeze P r (x # y # zs) =
     (if P x \<and> P y then squeeze P r (y # zs)
      else (if P x then r else x) # squeeze P r (y # zs))"

definition slugify_spec :: "py_runtime \<Rightarrow> ustr \<Rightarrow> ustr" where
  "slugify_spec U raw =
     (let a = lower U raw;
          b = squeeze is_sep_or_space 95 a;
          c = filter is_slug_char b;
          d = squeeze (\<lambda>c. c = 95) 95 c;
          e = strip_by (\<lambda>c. c = 95) d
      in if e = [] then ustr ''unnamed'' else e)"

subsection \<open>create_materials.py: strip_accents, sanitize_token\<close>

definition strip_accents :: "py_runtime \<Rightarrow> ustr \<Rightarrow> ustr" where
  "strip_accents U text = filter (\<lambda>ch. combining U ch = 0) (nfkd U text)"

definition is_token_char :: "nat \<Rightarrow> bool" where
  "is_token_char c \<longleftrightarrow> is_upper_az c \<or> is_lower_az c \<or> is_digit c \<or> c = 45"

text \<open>
  The argument is \<open>None\<close> or a string. \<open>str.upper\<close> is applied to a string that the
  substitution before it has reduced to \<open>[A-Za-z0-9-]\<close>, where it is \<open>ascii_upper\<close>.
\<close>

fun sanitize_token :: "py_runtime \<Rightarrow> ustr option \<Rightarrow> ustr" where
  "sanitize_token U None = []"
| "sanitize_token U (Some text0) =
     (let text1 = py_strip (strip_accents U text0);
          text2 = map (\<lambda>c. if c = 32 then 45 else c) text1;
          text3 = re_keep_class is_token_char text2;
          text4 = re_sub_class 2 (\<lambda>c. c = 45) [45] text3;
          text5 = strip_by (\<lambda>c. c = 45) text4
      in map ascii_upper text5)"



section \<open>The catalog adapters\<close>

text \<open>
  Exceptions the repository does not catch, as values. \<open>truthy\<close> is Python's truth value,
  \<open>py_or a b\<close> is \<open>a or b\<close>, \<open>obj_get kvs k\<close> is \<open>d.get(k)\<close> on a dict, \<open>str_strip v\<close> is
  \<open>v.strip()\<close> (only a string has it), \<open>py_iter v\<close> is what \<open>for x in v\<close> runs through.
\<close>

datatype py_error = AttributeError | TypeError | ValueError | OtherError ustr

definition truthy :: "json \<Rightarrow> bool" where
  "truthy v =
     (case v of JNull \<Rightarrow> False | JBool b \<Rightarrow> b | JNum n \<Rightarrow> n \<noteq> 0 | JStr s \<Rightarrow> s \<noteq> []
      | JArr xs \<Rightarrow> xs \<noteq> [] | JObj kvs \<Rightarrow> kvs \<noteq> [])"

definition py_or :: "json \<Rightarrow> json \<Rightarrow> json" where
  "py_or a b = (if truthy a then a else b)"

definition obj_get :: "(ustr \<times> json) list \<Rightarrow> string \<Rightarrow> json" where
  "obj_get kvs k = (case map_of kvs (ustr k) of None \<Rightarrow> JNull | Some v \<Rightarrow> v)"

definition str_strip :: "json \<Rightarrow> py_error + ustr" where
  "str_strip v = (case v of JStr s \<Rightarrow> Inr (py_strip s) | _ \<Rightarrow> Inl AttributeError)"

definition py_iter :: "json \<Rightarrow> py_error + json list" where
  "py_iter v =
     (case v of JArr xs \<Rightarrow> Inr xs
      | JStr s \<Rightarrow> Inr (map (\<lambda>c. JStr [c]) s)
      | JObj kvs \<Rightarrow> Inr (map (\<lambda>kv. JStr (fst kv)) kvs)
      | _ \<Rightarrow> Inl TypeError)"

text \<open>
  create_materials.py and downloadTextures.py, the same text in both:
  \<open>_get_collection_name\<close>, \<open>_get_subcollection_list\<close>, \<open>_get_subcollection_name\<close>,
  \<open>_get_variations_list\<close>.
\<close>

definition get_collection_name :: "json \<Rightarrow> py_error + ustr" where
  "get_collection_name coll =
     (case coll of
        JObj kvs \<Rightarrow>
          str_strip (py_or (obj_get kvs ''collection-name'')
                      (py_or (obj_get kvs ''collection'') (JStr [])))
      | _ \<Rightarrow> Inl AttributeError)"

definition get_subcollection_list :: "json \<Rightarrow> py_error + json" where
  "get_subcollection_list coll =
     (case coll of
        JObj kvs \<Rightarrow> Inr (py_or (obj_get kvs ''subcollection'') (JArr []))
      | _ \<Rightarrow> Inl AttributeError)"

definition get_subcollection_name :: "json \<Rightarrow> py_error + ustr" where
  "get_subcollection_name sub =
     (case sub of
        JObj kvs \<Rightarrow>
          str_strip (py_or (obj_get kvs ''subcollection-name'')
                      (py_or (obj_get kvs ''name'') (JStr [])))
      | _ \<Rightarrow> Inl AttributeError)"

definition get_variations_list :: "json \<Rightarrow> py_error + json" where
  "get_variations_list sub =
     (case sub of
        JObj kvs \<Rightarrow>
          (let v = obj_get kvs ''variations'';
               v = (if v = JNull then obj_get kvs ''variation'' else v)
           in Inr (py_or v (JArr [])))
      | _ \<Rightarrow> Inl AttributeError)"

text \<open>create_materials.py: \<open>_get_variation_label\<close>.\<close>

definition get_variation_label :: "py_runtime \<Rightarrow> json \<Rightarrow> py_error + ustr" where
  "get_variation_label R variation_item =
     (case variation_item of
        JObj kvs \<Rightarrow>
          (case str_strip (py_or (obj_get kvs ''variation-name'') (JStr [])) of
             Inl e \<Rightarrow> Inl e
           | Inr vname \<Rightarrow>
               (case str_strip (py_or (obj_get kvs ''variation-pattern'') (JStr [])) of
                  Inl e \<Rightarrow> Inl e
                | Inr vpat \<Rightarrow>
                    Inr (if vname \<noteq> [] \<and> vpat \<noteq> [] then vname @ ustr ''-'' @ vpat
                         else if vname \<noteq> [] then vname else vpat)))
      | JStr s \<Rightarrow> Inr (py_strip s)
      | _ \<Rightarrow> Inr (py_strip (str_of R variation_item)))"

text \<open>downloadTextures.py: \<open>_get_variation_pattern\<close>.\<close>

definition get_variation_pattern :: "json \<Rightarrow> py_error + ustr option" where
  "get_variation_pattern variation_item =
     (case variation_item of
        JObj kvs \<Rightarrow>
          (case str_strip (py_or (obj_get kvs ''variation-pattern'') (JStr [])) of
             Inl e \<Rightarrow> Inl e
           | Inr vp \<Rightarrow> Inr (if vp \<noteq> [] then Some vp else None))
      | _ \<Rightarrow> Inr None)"


section \<open>create_materials.py: folder names and material specs\<close>

definition is_invalid_win :: "nat \<Rightarrow> bool" where
  "is_invalid_win c \<longleftrightarrow>
     c = 60 \<or> c = 62 \<or> c = 58 \<or> c = 34 \<or> c = 47 \<or> c = 92 \<or> c = 124 \<or> c = 63 \<or> c = 42"

text \<open>\<open>re.sub(r"[class]", r, s)\<close>: every character of the class becomes \<open>r\<close>.\<close>

definition re_sub_each :: "(nat \<Rightarrow> bool) \<Rightarrow> ustr \<Rightarrow> ustr \<Rightarrow> ustr" where
  "re_sub_each P r s = concat (map (\<lambda>c. if P c then r else [c]) s)"

definition sanitize_folder :: "ustr \<Rightarrow> ustr" where
  "sanitize_folder name =
     (let s1 = re_sub_each is_invalid_win (ustr ''_'') (py_strip name);
          s2 = re_sub_class 1 py_isspace (ustr '' '') s1;
          s3 = rstrip_by (\<lambda>c. c = 46 \<or> c = 32) s2
      in if s3 \<noteq> [] then s3 else ustr ''_'')"

text \<open>
  A path is the list of its components; \<open>p / name\<close> appends one. \<open>Path.resolve()\<close> is
  left out (the identity on the paths built here, links and drive letters apart).
\<close>

type_synonym path = "ustr list"

record material_spec =
  name :: ustr
  package_path :: ustr
  asset_path :: ustr
  object_path :: ustr
  filesystem_path :: path
  parent :: ustr

definition PARENT_MATERIAL_OBJECT_PATH :: ustr where
  "PARENT_MATERIAL_OBJECT_PATH = ustr ''/Game/Materials/MI_Sample.MI_Sample''"

text \<open>\<open>build_material_specs\<close>: the three nested loops, innermost first.\<close>

fun specs_of_variations ::
  "py_runtime \<Rightarrow> path \<Rightarrow> ustr \<Rightarrow> ustr \<Rightarrow> ustr \<Rightarrow> ustr \<Rightarrow> ustr \<Rightarrow> json list
     \<Rightarrow> py_error + material_spec list" where
  "specs_of_variations R base_fs base_asset coll_raw coll_folder sub_raw sub_folder [] = Inr []"
| "specs_of_variations R base_fs base_asset coll_raw coll_folder sub_raw sub_folder (var # vars) =
     (case get_variation_label R var of
        Inl e \<Rightarrow> Inl e
      | Inr var_raw \<Rightarrow>
          (let coll_tok = sanitize_token R (Some coll_raw);
               sub_tok = sanitize_token R (Some sub_raw);
               var_tok = sanitize_token R (Some var_raw)
           in if \<not> (coll_tok \<noteq> [] \<and> sub_tok \<noteq> [] \<and> var_tok \<noteq> [])
              then specs_of_variations R base_fs base_asset coll_raw coll_folder sub_raw
                     sub_folder vars
              else
                (let name = ustr ''MI_'' @ coll_tok @ ustr ''_'' @ sub_tok @ ustr ''_'' @ var_tok;
                     folder_rel = (if sub_folder \<noteq> [] then coll_folder @ ustr ''/'' @ sub_folder
                                   else coll_folder);
                     package_path = (if folder_rel \<noteq> [] then base_asset @ ustr ''/'' @ folder_rel
                                     else base_asset);
                     asset_path = package_path @ ustr ''/'' @ name;
                     object_path = asset_path @ ustr ''.'' @ name;
                     fs_path = base_fs @ [coll_folder, sub_folder, name @ ustr ''.uasset''];
                     spec = \<lparr> name = name, package_path = package_path,
                              asset_path = asset_path, object_path = object_path,
                              filesystem_path = fs_path,
                              parent = PARENT_MATERIAL_OBJECT_PATH \<rparr>
                 in case specs_of_variations R base_fs base_asset coll_raw coll_folder sub_raw
                           sub_folder vars of
                      Inl e \<Rightarrow> Inl e
                    | Inr specs \<Rightarrow> Inr (spec # specs))))"

fun specs_of_subcollections ::
  "py_runtime \<Rightarrow> path \<Rightarrow> ustr \<Rightarrow> ustr \<Rightarrow> ustr \<Rightarrow> json list \<Rightarrow> py_error + material_spec list" where
  "specs_of_subcollections R base_fs base_asset coll_raw coll_folder [] = Inr []"
| "specs_of_subcollections R base_fs base_asset coll_raw coll_folder (sub # subs) =
     (case get_subcollection_name sub of
        Inl e \<Rightarrow> Inl e
      | Inr sub_raw \<Rightarrow>
          if sub_raw = []
          then specs_of_subcollections R base_fs base_asset coll_raw coll_folder subs
          else
            (let sub_folder = sanitize_folder sub_raw in
             case get_variations_list sub of
               Inl e \<Rightarrow> Inl e
             | Inr vl \<Rightarrow>
                 (case py_iter vl of
                    Inl e \<Rightarrow> Inl e
                  | Inr vars \<Rightarrow>
                      (case specs_of_variations R base_fs base_asset coll_raw coll_folder
                              sub_raw sub_folder vars of
                         Inl e \<Rightarrow> Inl e
                       | Inr here \<Rightarrow>
                           (case specs_of_subcollections R base_fs base_asset coll_raw
                                   coll_folder subs of
                              Inl e \<Rightarrow> Inl e
                            | Inr rest \<Rightarrow> Inr (here @ rest))))))"

fun specs_of_collections ::
  "py_runtime \<Rightarrow> path \<Rightarrow> ustr \<Rightarrow> json list \<Rightarrow> py_error + material_spec list" where
  "specs_of_collections R base_fs base_asset [] = Inr []"
| "specs_of_collections R base_fs base_asset (coll # colls) =
     (case get_collection_name coll of
        Inl e \<Rightarrow> Inl e
      | Inr coll_raw \<Rightarrow>
          if coll_raw = []
          then specs_of_collections R base_fs base_asset colls
          else
            (let coll_folder = sanitize_folder coll_raw in
             case get_subcollection_list coll of
               Inl e \<Rightarrow> Inl e
             | Inr sub_list \<Rightarrow>
                 (case py_iter sub_list of
                    Inl e \<Rightarrow> Inl e
                  | Inr subs \<Rightarrow>
                      (case specs_of_subcollections R base_fs base_asset coll_raw coll_folder
                              subs of
                         Inl e \<Rightarrow> Inl e
                       | Inr here \<Rightarrow>
                           (case specs_of_collections R base_fs base_asset colls of
                              Inl e \<Rightarrow> Inl e
                            | Inr rest \<Rightarrow> Inr (here @ rest))))))"

definition build_material_specs ::
  "py_runtime \<Rightarrow> json \<Rightarrow> path \<Rightarrow> ustr \<Rightarrow> py_error + material_spec list" where
  "build_material_specs R data base_fs_root_vendor base_asset_root_vendor =
     (case py_iter (py_or data (JArr [])) of
        Inl e \<Rightarrow> Inl e
      | Inr colls \<Rightarrow> specs_of_collections R base_fs_root_vendor base_asset_root_vendor colls)"


section \<open>The file system and the network\<close>

text \<open>
  The files (path to content) and the directories. What the operating system and the
  network answer is the environment: \<open>mkdir_err\<close> says for which directory \<open>os.mkdir\<close>
  raises, and with what text; \<open>http\<close> what the \<open>n\<close>-th call of \<open>http_get\<close> of the run
  returns or raises; \<open>io\<close> what goes wrong while the body of that call is saved.
\<close>

type_synonym bytes = "nat list"

record fsys =
  files :: "path \<rightharpoonup> bytes"
  dirs :: "path set"

datatype http_outcome = Body bytes | Transient ustr | Uncaught py_error

datatype io_fault = NoFault | OpenFails ustr | WriteFails nat ustr | ReplaceFails ustr

record os_env =
  mkdir_err :: "path \<Rightarrow> ustr option"
  http :: "nat \<Rightarrow> ustr \<Rightarrow> http_outcome"
  io :: "nat \<Rightarrow> io_fault"

definition path_exists :: "'a fsys_scheme \<Rightarrow> path \<Rightarrow> bool" where
  "path_exists fs p \<longleftrightarrow> files fs p \<noteq> None \<or> p \<in> dirs fs"

text \<open>
  \<open>Path.mkdir(parents=True, exist_ok=True)\<close>: the missing ancestors and the directory
  itself are made from the top; the first refusal stops it, with what was made so far.
\<close>

definition ancestors :: "path \<Rightarrow> path list" where
  "ancestors p = map (\<lambda>n. take n p) [1..<Suc (length p)]"

fun mkdirs :: "os_env \<Rightarrow> path list \<Rightarrow> 'a fsys_scheme \<Rightarrow> ustr option \<times> 'a fsys_scheme" where
  "mkdirs env [] fs = (None, fs)"
| "mkdirs env (a # as) fs =
     (if a \<in> dirs fs then mkdirs env as fs
      else (case mkdir_err env a of
              Some msg \<Rightarrow> (Some msg, fs)
            | None \<Rightarrow> mkdirs env as (fs\<lparr>dirs := insert a (dirs fs)\<rparr>)))"

definition mkdir_parents :: "os_env \<Rightarrow> path \<Rightarrow> 'a fsys_scheme \<Rightarrow> ustr option \<times> 'a fsys_scheme" where
  "mkdir_parents env p fs = mkdirs env (ancestors p) fs"


section \<open>create-folders.py\<close>

text \<open>\<open>ensure_dir\<close>: True when the directory was made now; a failure is caught and is False.\<close>

definition ensure_dir :: "os_env \<Rightarrow> path \<Rightarrow> 'a fsys_scheme \<Rightarrow> bool \<times> 'a fsys_scheme" where
  "ensure_dir env p fs =
     (if path_exists fs p then (False, fs)
      else (case mkdir_parents env p fs of
              (None, fs') \<Rightarrow> (True, fs')
            | (Some msg, fs') \<Rightarrow> (False, fs')))"

record summary =
  created_collections :: nat
  existing_collections :: nat
  created_subcollections :: nat
  existing_subcollections :: nat

text \<open>
  The names \<open>create_structure\<close> reads: \<open>collection-name\<close>, else \<open>name\<close>, else the constant
  \<open>collection\<close>; \<open>subcollection-name\<close>, else \<open>name\<close>, else the constant \<open>subcollection\<close>.
\<close>

definition col_name_of :: "(ustr \<times> json) list \<Rightarrow> json" where
  "col_name_of collection =
     py_or (obj_get collection ''collection-name'')
       (py_or (obj_get collection ''name'') (JStr (ustr ''collection'')))"

definition sub_name_of :: "(ustr \<times> json) list \<Rightarrow> json" where
  "sub_name_of sub =
     py_or (obj_get sub ''subcollection-name'')
       (py_or (obj_get sub ''name'') (JStr (ustr ''subcollection'')))"

fun create_subcollections ::
  "py_runtime \<Rightarrow> os_env \<Rightarrow> path \<Rightarrow> json list \<Rightarrow> summary \<Rightarrow> 'a fsys_scheme
     \<Rightarrow> (py_error + summary) \<times> 'a fsys_scheme" where
  "create_subcollections R env col_path [] sm fs = (Inr sm, fs)"
| "create_subcollections R env col_path (sub # subs) sm fs =
     (case sub of
        JObj kvs \<Rightarrow>
          (case sub_name_of kvs of
             JStr sub_name \<Rightarrow>
               (let sub_slug = slugify R sub_name;
                    sub_path = col_path @ [sub_slug]
                in case ensure_dir env sub_path fs of
                     (True, fs') \<Rightarrow>
                       create_subcollections R env col_path subs
                         (sm\<lparr>created_subcollections := created_subcollections sm + 1\<rparr>) fs'
                   | (False, fs') \<Rightarrow>
                       create_subcollections R env col_path subs
                         (sm\<lparr>existing_subcollections := existing_subcollections sm + 1\<rparr>) fs')
           | _ \<Rightarrow> (Inl AttributeError, fs))
      | _ \<Rightarrow> (Inl AttributeError, fs))"

fun create_collections ::
  "py_runtime \<Rightarrow> os_env \<Rightarrow> path \<Rightarrow> json list \<Rightarrow> summary \<Rightarrow> 'a fsys_scheme
     \<Rightarrow> (py_error + summary) \<times> 'a fsys_scheme" where
  "create_collections R env dest [] sm fs = (Inr sm, fs)"
| "create_collections R env dest (collection # rest) sm fs =
     (case collection of
        JObj kvs \<Rightarrow>
          (case col_name_of kvs of
             JStr col_name \<Rightarrow>
               (let col_slug = slugify R col_name;
                    col_path = dest @ [col_slug];
                    (created, fs1) = ensure_dir env col_path fs;
                    sm1 = (if created
                           then sm\<lparr>created_collections := created_collections sm + 1\<rparr>
                           else sm\<lparr>existing_collections := existing_collections sm + 1\<rparr>)
                in case py_iter (py_or (obj_get kvs ''subcollection'') (JArr [])) of
                     Inl e \<Rightarrow> (Inl e, fs1)
                   | Inr subcollections \<Rightarrow>
                       (case create_subcollections R env col_path subcollections sm1 fs1 of
                          (Inl e, fs2) \<Rightarrow> (Inl e, fs2)
                        | (Inr sm2, fs2) \<Rightarrow> create_collections R env dest rest sm2 fs2))
           | _ \<Rightarrow> (Inl AttributeError, fs))
      | _ \<Rightarrow> (Inl AttributeError, fs))"

definition create_structure ::
  "py_runtime \<Rightarrow> os_env \<Rightarrow> json list \<Rightarrow> path \<Rightarrow> 'a fsys_scheme
     \<Rightarrow> (py_error + summary) \<times> 'a fsys_scheme" where
  "create_structure R env collections dest fs =
     create_collections R env dest collections
       \<lparr> created_collections = 0, existing_collections = 0,
         created_subcollections = 0, existing_subcollections = 0 \<rparr> fs"

section \<open>downloadTextures.py\<close>

definition build_download_url :: "ustr \<Rightarrow> ustr" where
  "build_download_url variation_pattern =
     (let pat = py_strip variation_pattern
      in ustr ''https://images.mayerfabrics.com/item/'' @ pat @ ustr ''/image?download='' @ pat)"

text \<open>
  The state of a run: the file system, the number of \<open>http_get\<close> calls made, the log of
  what was done (in order), and every state the files went through, one after each
  change. A sleep is logged with its duration, \<open>backoff ** attempt\<close>.
\<close>

datatype event =
    EvGet ustr
  | EvSleep rat
  | EvMkdir path
  | EvOpen path
  | EvWrite path bytes
  | EvReplace path path

record world = fsys +
  calls :: nat
  log :: "event list"
  seen :: "(path \<rightharpoonup> bytes) list"

text \<open>
  \<open>dest_path.with_suffix(dest_path.suffix + '.part')\<close>: the last component with \<open>.part\<close>
  appended (a path with no last component has no such sibling: \<open>ValueError\<close>).
\<close>

definition part_sibling :: "path \<Rightarrow> path" where
  "part_sibling dest_path = butlast dest_path @ [last dest_path @ ustr ''.part'']"

text \<open>
  The body of the \<open>try\<close> after \<open>http_get\<close> returned \<open>data\<close>: make the parent directories,
  open the sibling for writing (which creates it empty), write, rename over the
  destination. The result is \<open>Inr None\<close> when all went well, \<open>Inr (Some msg)\<close> for an
  \<open>OSError\<close> (the \<open>except\<close> clause catches it), \<open>Inl\<close> for what is not caught.
\<close>

definition save_body ::
  "os_env \<Rightarrow> nat \<Rightarrow> path \<Rightarrow> bytes \<Rightarrow> world \<Rightarrow> (py_error + ustr option) \<times> world" where
  "save_body env n dest_path data w =
     (case mkdir_parents env (butlast dest_path)
             (w\<lparr>log := log w @ [EvMkdir (butlast dest_path)]\<rparr>) of
        (Some msg, w1) \<Rightarrow> (Inr (Some msg), w1)
      | (None, w1) \<Rightarrow>
          if dest_path = [] then (Inl ValueError, w1)
          else
            (let tmp = part_sibling dest_path;
                 f1 = (files w1)(tmp \<mapsto> []);
                 f2 = f1(tmp \<mapsto> data);
                 f3 = (f2(dest_path \<mapsto> data))(tmp := None)
             in case io env n of
                  OpenFails msg \<Rightarrow>
                    (Inr (Some msg), w1\<lparr>log := log w1 @ [EvOpen tmp]\<rparr>)
                | WriteFails k msg \<Rightarrow>
                    (Inr (Some msg),
                     w1\<lparr>files := f1(tmp \<mapsto> take k data),
                        log := log w1 @ [EvOpen tmp, EvWrite tmp (take k data)],
                        seen := seen w1 @ [f1, f1(tmp \<mapsto> take k data)]\<rparr>)
                | ReplaceFails msg \<Rightarrow>
                    (Inr (Some msg),
                     w1\<lparr>files := f2,
                        log := log w1 @ [EvOpen tmp, EvWrite tmp data],
                        seen := seen w1 @ [f1, f2]\<rparr>)
                | NoFault \<Rightarrow>
                    (Inr None,
                     w1\<lparr>files := f3,
                        log := log w1 @ [EvOpen tmp, EvWrite tmp data, EvReplace tmp dest_path],
                        seen := seen w1 @ [f1, f2, f3]\<rparr>)))"

text \<open>One pass through the \<open>try\<close>: the call of \<open>http_get\<close>, then \<open>save_body\<close>.\<close>

definition try_body ::
  "os_env \<Rightarrow> ustr \<Rightarrow> path \<Rightarrow> world \<Rightarrow> (py_error + ustr option) \<times> world" where
  "try_body env url dest_path w =
     (let n = calls w;
          w0 = w\<lparr>calls := Suc n, log := log w @ [EvGet url]\<rparr>
      in case http env n url of
           Uncaught x \<Rightarrow> (Inl x, w0)
         | Transient msg \<Rightarrow> (Inr (Some msg), w0)
         | Body data \<Rightarrow> save_body env n dest_path data w0)"

text \<open>
  \<open>download_with_retries\<close>: the loop over \<open>range(1, retries + 1)\<close>, with \<open>last_err\<close>.
\<close>

fun dl_attempts ::
  "os_env \<Rightarrow> ustr \<Rightarrow> path \<Rightarrow> nat \<Rightarrow> rat \<Rightarrow> nat list \<Rightarrow> ustr option \<Rightarrow> world
     \<Rightarrow> (py_error + bool \<times> ustr) \<times> world" where
  "dl_attempts env url dest_path retries backoff [] last_err w =
     (Inr (False, case last_err of Some msg \<Rightarrow> msg | None \<Rightarrow> ustr ''error''), w)"
| "dl_attempts env url dest_path retries backoff (attempt # rest) last_err w =
     (case try_body env url dest_path w of
        (Inl x, w1) \<Rightarrow> (Inl x, w1)
      | (Inr None, w1) \<Rightarrow> (Inr (True, ustr ''ok''), w1)
      | (Inr (Some msg), w1) \<Rightarrow>
          if attempt < retries
          then dl_attempts env url dest_path retries backoff rest (Some msg)
                 (w1\<lparr>log := log w1 @ [EvSleep (backoff ^ attempt)]\<rparr>)
          else (Inr (False, msg), w1))"

definition download_with_retries ::
  "os_env \<Rightarrow> ustr \<Rightarrow> path \<Rightarrow> nat \<Rightarrow> rat \<Rightarrow> world \<Rightarrow> (py_error + bool \<times> ustr) \<times> world" where
  "download_with_retries env url dest_path retries backoff w =
     dl_attempts env url dest_path retries backoff [1..<retries + 1] None w"

text \<open>
  \<open>process_all\<close>, from the decoded JSON on; the counters and the error list. The file
  name \<open>pattern + '.jpg'\<close> is one component of the destination: exact for a pattern with
  no path separator in it (\<open>pathlib\<close> would split one that has).
\<close>

record tally =
  downloaded :: nat
  skipped :: nat
  failed :: nat
  errors :: "ustr list"

definition no_pattern_error :: "ustr \<Rightarrow> ustr \<Rightarrow> ustr" where
  "no_pattern_error coll_name sub_name =
     ustr ''Sin '' @ [39] @ ustr ''variation-pattern'' @ [39] @ ustr '' -> '' @
     coll_name @ ustr ''/'' @ sub_name"

fun process_variations ::
  "os_env \<Rightarrow> ustr \<Rightarrow> ustr \<Rightarrow> path \<Rightarrow> json list \<Rightarrow> tally \<Rightarrow> world
     \<Rightarrow> (py_error + tally) \<times> world" where
  "process_variations env coll_name sub_name target_dir [] t w = (Inr t, w)"
| "process_variations env coll_name sub_name target_dir (var # vars) t w =
     (case get_variation_pattern var of
        Inl e \<Rightarrow> (Inl e, w)
      | Inr None \<Rightarrow>
          process_variations env coll_name sub_name target_dir vars
            (t\<lparr>failed := failed t + 1,
               errors := errors t @ [no_pattern_error coll_name sub_name]\<rparr>) w
      | Inr (Some pattern) \<Rightarrow>
          (let url = build_download_url pattern;
               filename = pattern @ ustr ''.jpg'';
               dest_file = target_dir @ [filename]
           in if path_exists w dest_file
              then process_variations env coll_name sub_name target_dir vars
                     (t\<lparr>skipped := skipped t + 1\<rparr>) w
              else
                (case download_with_retries env url dest_file 3 (3 / 2) w of
                   (Inl e, w1) \<Rightarrow> (Inl e, w1)
                 | (Inr (ok, msg), w1) \<Rightarrow>
                     if ok
                     then process_variations env coll_name sub_name target_dir vars
                            (t\<lparr>downloaded := downloaded t + 1\<rparr>) w1
                     else process_variations env coll_name sub_name target_dir vars
                            (t\<lparr>failed := failed t + 1,
                               errors := errors t @ [pattern @ ustr '': '' @ msg]\<rparr>) w1)))"

fun process_subcollections ::
  "os_env \<Rightarrow> path \<Rightarrow> ustr \<Rightarrow> ustr \<Rightarrow> json list \<Rightarrow> tally \<Rightarrow> world
     \<Rightarrow> (py_error + tally) \<times> world" where
  "process_subcollections env dest_root coll_name coll_folder [] t w = (Inr t, w)"
| "process_subcollections env dest_root coll_name coll_folder (sub # subs) t w =
     (case get_subcollection_name sub of
        Inl e \<Rightarrow> (Inl e, w)
      | Inr sub_name \<Rightarrow>
          if sub_name = []
          then process_subcollections env dest_root coll_name coll_folder subs t w
          else
            (let sub_folder = sanitize_folder sub_name;
                 target_dir = dest_root @ [coll_folder, sub_folder]
             in case get_variations_list sub of
                  Inl e \<Rightarrow> (Inl e, w)
                | Inr vl \<Rightarrow>
                    (case py_iter vl of
                       Inl e \<Rightarrow> (Inl e, w)
                     | Inr vars \<Rightarrow>
                         (case process_variations env coll_name sub_name target_dir vars t w of
                            (Inl e, w1) \<Rightarrow> (Inl e, w1)
                          | (Inr t1, w1) \<Rightarrow>
                              process_subcollections env dest_root coll_name coll_folder
                                subs t1 w1))))"

fun process_collections ::
  "os_env \<Rightarrow> path \<Rightarrow> json list \<Rightarrow> tally \<Rightarrow> world \<Rightarrow> (py_error + tally) \<times> world" where
  "process_collections env dest_root [] t w = (Inr t, w)"
| "process_collections env dest_root (coll # colls) t w =
     (case get_collection_name coll of
        Inl e \<Rightarrow> (Inl e, w)
      | Inr coll_name \<Rightarrow>
          if coll_name = []
          then process_collections env dest_root colls t w
          else
            (let coll_folder = sanitize_folder coll_name
             in case get_subcollection_list coll of
                  Inl e \<Rightarrow> (Inl e, w)
                | Inr sub_list \<Rightarrow>
                    (case py_iter sub_list of
                       Inl e \<Rightarrow> (Inl e, w)
                     | Inr subs \<Rightarrow>
                         (case process_subcollections env dest_root coll_name coll_folder
                                 subs t w of
                            (Inl e, w1) \<Rightarrow> (Inl e, w1)
                          | (Inr t1, w1) \<Rightarrow> process_collections env dest_root colls t1 w1))))"

definition process_all :: "os_env \<Rightarrow> json \<Rightarrow> path \<Rightarrow> world \<Rightarrow> (py_error + tally) \<times> world" where
  "process_all env data dest_root w =
     (case py_iter (py_or data (JArr [])) of
        Inl e \<Rightarrow> (Inl e, w)
      | Inr colls \<Rightarrow>
          process_collections env dest_root colls
            \<lparr> downloaded = 0, skipped = 0, failed = 0, errors = [] \<rparr> w)"

section \<open>Concrete inputs for the examples\<close>

definition demo_variation :: json where
  "demo_variation =
     JObj [(ustr ''variation-name'', JStr (ustr ''Charcoal'')),
           (ustr ''variation-pattern'', JStr (ustr ''100-200''))]"

definition demo_dir :: path where
  "demo_dir = [ustr ''Texture'', ustr ''Wools'', ustr ''Heavy'']"

definition demo_file :: path where
  "demo_file = [ustr ''Texture'', ustr ''Wools'', ustr ''Heavy'', ustr ''100-200.jpg'']"

definition demo_url :: ustr where
  "demo_url = ustr ''https://images.mayerfabrics.com/item/100-200/image?download=100-200''"

definition world0 :: world where
  "world0 = \<lparr> files = Map.empty, dirs = {}, calls = 0, log = [], seen = [] \<rparr>"

text \<open>A network that is down; one that answers; one whose first save is cut short.\<close>

definition env_down :: os_env where
  "env_down =
     \<lparr> mkdir_err = (\<lambda>p. None), http = (\<lambda>n u. Transient (ustr ''timed out'')),
       io = (\<lambda>n. NoFault) \<rparr>"

definition env_up :: os_env where
  "env_up =
     \<lparr> mkdir_err = (\<lambda>p. None), http = (\<lambda>n u. Body [255, 216, 255]),
       io = (\<lambda>n. NoFault) \<rparr>"


text \<open>
  A catalog in the old schema (\<open>collection\<close>, \<open>name\<close>, \<open>variation\<close> with bare strings), and a
  collection whose name is empty, with one subcollection named by a blank and one by
  the empty string.
\<close>

definition legacy_collection :: json where
  "legacy_collection =
     JObj [(ustr ''collection'', JStr (ustr ''Wools'')),
           (ustr ''subcollection'',
            JArr [JObj [(ustr ''name'', JStr (ustr ''Heavy'')),
                        (ustr ''variation'', JArr [JStr (ustr ''Red'')])]])]"

definition blank_collection :: json where
  "blank_collection =
     JObj [(ustr ''collection-name'', JStr []),
           (ustr ''subcollection'',
            JArr [JObj [(ustr ''subcollection-name'', JStr (ustr '' ''))],
                  JObj [(ustr ''subcollection-name'', JStr [])]])]"

definition demo_fs_root :: path where
  "demo_fs_root = [ustr ''Content'', ustr ''Materials'', ustr ''MayerFabrics'']"

definition demo_asset_root :: ustr where
  "demo_asset_root = ustr ''/Game/Materials/MayerFabrics''"

definition summary0 :: summary where
  "summary0 = \<lparr> created_collections = 0, existing_collections = 0,
                 created_subcollections = 0, existing_subcollections = 0 \<rparr>"

definition tally0 :: tally where
  "tally0 = \<lparr> downloaded = 0, skipped = 0, failed = 0, errors = [] \<rparr>"


section \<open>Definitions used in the proofs\<close>

text \<open>
  The common core of \<open>slugify\<close> and of its specification, used in the proofs: separators
  and white space to \<open>_\<close> one by one, the filter, one \<open>_\<close> per run, the trim.
\<close>

definition slug_core :: "ustr \<Rightarrow> ustr" where
  "slug_core s = strip_by (\<lambda>c. c = 95)
     (squeeze (\<lambda>c. c = 95) 95
       (filter is_slug_char (map (\<lambda>c. if is_sep_or_space c then 95 else c) s)))"


section \<open>Proofs\<close>

subsection \<open>Runs, stripping and reversal\<close>

lemma squeeze_run_Cons:
  "P c \<Longrightarrow> squeeze P r (c # cs) = r # squeeze P r (dropWhile P cs)"
  by (induction cs arbitrary: c) auto

lemma re_sub_class_1_squeeze: "re_sub_class 1 P [r] s = squeeze P r s"
proof (induction "1::nat" P "[r]" s rule: re_sub_class.induct)
  case (1 P)
  show ?case by simp
next
  case (2 P c cs)
  show ?case
  proof (cases "P c")
    case True
    with 2 show ?thesis by (simp add: squeeze_run_Cons)
  next
    case False
    with 2 show ?thesis by (cases cs) auto
  qed
qed


lemma squeeze_eq_Nil [simp]: "squeeze P r s = [] \<longleftrightarrow> s = []"
  by (induction P r s rule: squeeze.induct) auto

lemma hd_squeeze_eq: "s \<noteq> [] \<Longrightarrow> hd (squeeze (\<lambda>c. c = r) r s) = hd s"
  by (induction "\<lambda>c::nat. c = r" r s rule: squeeze.induct) auto

lemma squeeze_eq_Cons:
  "squeeze (\<lambda>c. c = r) r (a # A) =
     (if a = r \<and> A \<noteq> [] \<and> hd A = r then squeeze (\<lambda>c. c = r) r A
      else a # squeeze (\<lambda>c. c = r) r A)"
  by (cases A) auto

lemma squeeze_eq_cong:
  assumes "squeeze (\<lambda>c. c = r) r A = squeeze (\<lambda>c. c = r) r B"
  shows "squeeze (\<lambda>c. c = r) r (a # A) = squeeze (\<lambda>c. c = r) r (a # B)"
proof -
  have e: "A = [] \<longleftrightarrow> B = []" using assms by (metis squeeze_eq_Nil)
  have h: "A \<noteq> [] \<Longrightarrow> hd A = hd B" using assms e by (metis hd_squeeze_eq)
  show ?thesis using assms e h by (auto simp: squeeze_eq_Cons)
qed

lemma squeeze_filter_map:
  "squeeze (\<lambda>c. c = r) r (filter Q (squeeze P r s)) =
   squeeze (\<lambda>c. c = r) r (filter Q (map (\<lambda>c. if P c then r else c) s))"
proof (induction P r s rule: squeeze.induct)
  case (1 P r)
  show ?case by simp
next
  case (2 P r x)
  show ?case by simp
next
  case (3 P r x y zs)
  let ?f = "\<lambda>c. if P c then r else c"
  let ?A = "filter Q (squeeze P r (y # zs))"
  let ?B = "filter Q (map ?f (y # zs))"
  show ?case
  proof (cases "P x \<and> P y")
    case True
    with 3 show ?thesis by (auto simp: squeeze_eq_Cons)
  next
    case False
    with 3 have ih: "squeeze (\<lambda>c. c = r) r ?A = squeeze (\<lambda>c. c = r) r ?B" by simp
    have l: "filter Q (squeeze P r (x # y # zs)) = (if Q (?f x) then ?f x # ?A else ?A)"
      using False by simp
    have rr: "filter Q (map ?f (x # y # zs)) = (if Q (?f x) then ?f x # ?B else ?B)"
      by simp
    show ?thesis unfolding l rr using ih squeeze_eq_cong [OF ih] by simp
  qed
qed


lemma squeeze_Cons_gen:
  "squeeze P r (a # s) =
     (if s \<noteq> [] \<and> P a \<and> P (hd s) then squeeze P r s
      else (if P a then r else a) # squeeze P r s)"
  by (cases s) auto

lemma squeeze_snoc:
  "squeeze P r (s @ [x]) =
     (if s \<noteq> [] \<and> P (last s) \<and> P x then squeeze P r s
      else squeeze P r s @ [if P x then r else x])"
  by (induction P r s rule: squeeze.induct) auto

lemma squeeze_rev: "squeeze P r (rev s) = rev (squeeze P r s)"
proof (induction s)
  case Nil
  show ?case by simp
next
  case (Cons a s)
  show ?case
    using Cons by (simp add: squeeze_snoc squeeze_Cons_gen last_rev)
qed

lemma dropWhile_squeeze:
  "dropWhile (\<lambda>c. c = r) (squeeze (\<lambda>c. c = r) r x) = squeeze (\<lambda>c. c = r) r (dropWhile (\<lambda>c. c = r) x)"
  by (induction "\<lambda>c::nat. c = r" r x rule: squeeze.induct) auto

lemma rstrip_keeps_head:
  assumes "\<not> P a"
  shows "rev (dropWhile P (rev (a # d))) = a # rev (dropWhile P (rev d))"
  using assms by (simp add: dropWhile_append)

lemma dropWhile_rev_swap:
  "dropWhile P (rev (dropWhile P (rev s))) = rev (dropWhile P (rev (dropWhile P s)))"
proof (induction s)
  case Nil
  show ?case by simp
next
  case (Cons a s)
  show ?case
  proof (cases "P a")
    case False
    then show ?thesis by (simp add: rstrip_keeps_head del: rev.simps)
  next
    case True
    have "rev (dropWhile P (rev (a # s))) =
        (if \<forall>x\<in>set s. P x then [] else a # rev (dropWhile P (rev s)))"
      using True by (simp add: dropWhile_append)
    then show ?thesis using True Cons
      by (auto simp: dropWhile_eq_Nil_conv simp del: rev.simps dest: set_dropWhileD)
  qed
qed

lemma strip_by_rev: "strip_by P (rev s) = rev (strip_by P s)"
  by (simp add: strip_by_def lstrip_by_def rstrip_by_def dropWhile_rev_swap)

subsection \<open>slugify\<close>

lemma slug_core_rev: "slug_core (rev s) = rev (slug_core s)"
  by (simp add: slug_core_def rev_map [symmetric] rev_filter [symmetric] squeeze_rev strip_by_rev)

lemma is_slug_char_95 [simp]: "is_slug_char 95"
  by (simp add: is_slug_char_def)

lemma slug_core_space_Cons: "is_sep_or_space c \<Longrightarrow> slug_core (c # s) = slug_core s"
proof -
  assume c: "is_sep_or_space c"
  let ?m = "filter is_slug_char (map (\<lambda>c. if is_sep_or_space c then 95 else c) s)"
  have "lstrip_by (\<lambda>c. c = 95) (squeeze (\<lambda>c. c = 95) 95 (95 # ?m)) =
        lstrip_by (\<lambda>c. c = 95) (squeeze (\<lambda>c. c = 95) 95 ?m)"
    unfolding lstrip_by_def dropWhile_squeeze by simp
  then show ?thesis using c by (simp add: slug_core_def strip_by_def)
qed

lemma slug_core_dropWhile: "slug_core (dropWhile py_isspace s) = slug_core s"
  by (induction s) (auto simp: slug_core_space_Cons is_sep_or_space_def)

lemma slug_core_py_strip: "slug_core (py_strip s) = slug_core s"
proof -
  have "slug_core (py_strip s) = rev (slug_core (dropWhile py_isspace (rev (dropWhile py_isspace s))))"
    by (simp add: py_strip_def strip_by_def rstrip_by_def lstrip_by_def slug_core_rev)
  also have "\<dots> = rev (slug_core (rev (dropWhile py_isspace s)))"
    by (simp only: slug_core_dropWhile)
  also have "\<dots> = slug_core s"
    by (simp add: slug_core_rev slug_core_dropWhile)
  finally show ?thesis .
qed

lemma re_sub_class_Suc0_squeeze: "re_sub_class (Suc 0) P [r] s = squeeze P r s"
  using re_sub_class_1_squeeze [of P r s] by simp

lemma slugify_core:
  "slugify U raw = (let e = slug_core (lower U (py_strip raw)) in if e = [] then ustr ''unnamed'' else e)"
  by (simp add: slugify_def slug_core_def re_sub_class_Suc0_squeeze re_keep_class_def squeeze_filter_map Let_def)

lemma slugify_spec_core:
  "slugify_spec U raw = (let e = slug_core (lower U raw) in if e = [] then ustr ''unnamed'' else e)"
  by (simp add: slugify_spec_def slug_core_def squeeze_filter_map Let_def)

lemma dropWhile_none: "\<forall>x\<in>set s. \<not> P x \<Longrightarrow> dropWhile P s = s"
  by (cases s) auto

lemma strip_by_none: "\<forall>x\<in>set s. \<not> P x \<Longrightarrow> strip_by P s = s"
  by (simp add: strip_by_def lstrip_by_def rstrip_by_def dropWhile_none)

lemma strip_by_idem: "strip_by P (strip_by P s) = strip_by P s"
proof -
  let ?d = "dropWhile P s"
  let ?e = "rev (dropWhile P (rev ?d))"
  have "dropWhile P ?e = ?e"
    by (simp add: dropWhile_rev_swap)
  then show ?thesis
    by (simp add: strip_by_def lstrip_by_def rstrip_by_def)
qed

lemma squeeze_strip_by:
  "squeeze (\<lambda>c. c = r) r (strip_by (\<lambda>c. c = r) x) = strip_by (\<lambda>c. c = r) (squeeze (\<lambda>c. c = r) r x)"
  by (simp add: strip_by_def lstrip_by_def rstrip_by_def squeeze_rev dropWhile_squeeze [symmetric])

lemma squeeze_idem:
  "squeeze (\<lambda>c. c = r) r (squeeze (\<lambda>c. c = r) r x) = squeeze (\<lambda>c. c = r) r x"
  by (induction "\<lambda>c::nat. c = r" r x rule: squeeze.induct) (auto simp: squeeze_eq_Cons hd_squeeze_eq)

lemma set_squeeze_eq: "set (squeeze (\<lambda>c. c = r) r x) = set x"
  by (induction "\<lambda>c::nat. c = r" r x rule: squeeze.induct) auto

lemma set_strip_by: "set (strip_by P s) \<subseteq> set s"
  unfolding strip_by_def lstrip_by_def rstrip_by_def
  by (metis set_dropWhileD set_rev subsetI)

lemma slug_core_chars: "\<forall>c \<in> set (slug_core s). is_slug_char c"
  using set_strip_by [of "\<lambda>c. c = 95"] by (fastforce simp: slug_core_def set_squeeze_eq)

lemma slug_char_not_sep: "is_slug_char c \<Longrightarrow> \<not> is_sep_or_space c"
  by (auto simp: is_slug_char_def is_sep_or_space_def py_isspace_def is_lower_az_def is_digit_def)

lemma slug_char_lower: "is_slug_char c \<Longrightarrow> ascii_lower c = c"
  by (auto simp: is_slug_char_def ascii_lower_def is_upper_az_def is_lower_az_def is_digit_def)

lemma slug_char_ascii: "is_slug_char c \<Longrightarrow> c < 128"
  by (auto simp: is_slug_char_def is_lower_az_def is_digit_def)

lemma slug_core_fixed:
  assumes "\<forall>c \<in> set t. is_slug_char c"
  shows "slug_core t = strip_by (\<lambda>c. c = 95) (squeeze (\<lambda>c. c = 95) 95 t)"
proof -
  have "map (\<lambda>c. if is_sep_or_space c then 95 else c) t = t"
    using assms by (intro map_idI) (simp add: slug_char_not_sep)
  moreover have "filter is_slug_char t = t" using assms by simp
  ultimately show ?thesis by (simp add: slug_core_def)
qed

lemma slug_core_idem: "slug_core (slug_core s) = slug_core s"
proof -
  have "slug_core (slug_core s) =
      strip_by (\<lambda>c. c = 95) (squeeze (\<lambda>c. c = 95) 95 (slug_core s))"
    by (rule slug_core_fixed) (rule slug_core_chars)
  also have "\<dots> = slug_core s"
    by (simp add: slug_core_def squeeze_strip_by squeeze_idem strip_by_idem)
  finally show ?thesis .
qed

lemma slugify_fixed:
  assumes L: "lower_ok (lower U)" and c: "\<forall>c \<in> set t. is_slug_char c"
    and f: "slug_core t = t" and n: "t \<noteq> []"
  shows "slugify U t = t"
proof -
  have "\<forall>c \<in> set t. \<not> py_isspace c"
    using c slug_char_not_sep by (auto simp: is_sep_or_space_def)
  then have s: "py_strip t = t" by (simp add: py_strip_def strip_by_none)
  have "\<forall>c \<in> set t. c < 128" using c slug_char_ascii by blast
  then have "lower U t = map ascii_lower t" using L by (simp add: lower_ok_def)
  also have "\<dots> = t" using c by (intro map_idI) (simp add: slug_char_lower)
  finally show ?thesis using s f n by (simp add: slugify_core)
qed

lemma unnamed_fixed:
  "(\<forall>c \<in> set (ustr ''unnamed''). is_slug_char c) \<and> slug_core (ustr ''unnamed'') = ustr ''unnamed''"
  by (simp add: ustr_def is_slug_char_def is_lower_az_def slug_core_def strip_by_def lstrip_by_def rstrip_by_def
      is_sep_or_space_def py_isspace_def)

lemma map_dropWhile_pres:
  assumes "\<And>c. P (f c) = P c"
  shows "map f (dropWhile P s) = dropWhile P (map f s)"
  using assms by (induction s) auto

lemma ascii_lower_space: "py_isspace (ascii_lower c) = py_isspace c"
  by (auto simp: ascii_lower_def is_upper_az_def py_isspace_def)

lemma lower_ok_ascii_runtime: "lower_ok (lower ascii_runtime)"
  unfolding lower_ok_def ascii_runtime_def
  by (simp add: py_strip_def strip_by_def lstrip_by_def rstrip_by_def rev_map [symmetric]
      map_dropWhile_pres [of py_isspace ascii_lower, OF ascii_lower_space])


text \<open>
  C7. For every input string, \<open>slugify\<close> of create-folders.py equals the specified pipeline
  of \<open>slugify_for_directories\<close> (lowercase, runs of white space and path separators to \<open>_\<close>,
  delete what is outside \<open>[a-z0-9_]\<close>, collapse \<open>_\<close>, trim \<open>_\<close>, \<open>unnamed\<close> when empty), although
  the code strips white space first; and \<open>slugify("Modern/Silk") = "modern_silk"\<close>.
  \<open>str.lower\<close> is any function with the properties \<open>lower_ok\<close>.
\<close>

theorem slugify_refines_spec:
  assumes "lower_ok (lower U)"
  shows "slugify U raw = slugify_spec U raw \<and>
         slugify U (ustr ''Modern/Silk'') = ustr ''modern_silk''"
proof
  have "lower U (py_strip raw) = py_strip (lower U raw)"
    using assms by (simp add: lower_ok_def)
  then show "slugify U raw = slugify_spec U raw"
    by (simp add: slugify_core slugify_spec_core slug_core_py_strip)
next
  let ?m = "ustr ''Modern/Silk''"
  have s: "py_strip ?m = ?m"
    by (simp add: ustr_def py_strip_def strip_by_def lstrip_by_def rstrip_by_def py_isspace_def)
  have "\<forall>c \<in> set ?m. c < 128" by (simp add: ustr_def)
  then have "lower U ?m = map ascii_lower ?m"
    using assms by (simp add: lower_ok_def)
  then have l: "lower U (py_strip ?m) = ustr ''modern/silk''"
    by (simp add: s) (simp add: ustr_def ascii_lower_def is_upper_az_def)
  show "slugify U ?m = ustr ''modern_silk''"
    unfolding slugify_core l
    by (simp add: ustr_def slug_core_def strip_by_def lstrip_by_def rstrip_by_def
        is_sep_or_space_def py_isspace_def is_slug_char_def is_lower_az_def is_digit_def)
qed

theorem slugify_refines_spec_witness:
  "lower_ok (lower ascii_runtime) \<and>
   slugify ascii_runtime (ustr '' Wool  & Silk/2 '') = ustr ''wool_silk_2'' \<and>
   slugify_spec ascii_runtime (ustr '' Wool  & Silk/2 '') = ustr ''wool_silk_2'' \<and>
   slugify ascii_runtime (ustr ''Modern/Silk'') = ustr ''modern_silk''"
proof -
  have e: "slugify_spec ascii_runtime (ustr '' Wool  & Silk/2 '') = ustr ''wool_silk_2''"
    by (simp add: slugify_spec_def ascii_runtime_def ustr_def strip_by_def lstrip_by_def
        rstrip_by_def ascii_lower_def is_upper_az_def is_sep_or_space_def py_isspace_def
        is_slug_char_def is_lower_az_def is_digit_def)
  show ?thesis
    using slugify_refines_spec [OF lower_ok_ascii_runtime, of "ustr '' Wool  & Silk/2 ''"] e
    by (simp add: lower_ok_ascii_runtime)
qed

text \<open>
  C9. The directory slug function is idempotent: for every string \<open>s\<close>,
  \<open>slugify (slugify s) = slugify s\<close>.
\<close>

theorem slugify_idempotent:
  assumes "lower_ok (lower U)"
  shows "slugify U (slugify U s) = slugify U s"
proof (cases "slug_core (lower U (py_strip s)) = []")
  case True
  then have "slugify U s = ustr ''unnamed''" by (simp add: slugify_core)
  moreover have "slugify U (ustr ''unnamed'') = ustr ''unnamed''"
    using unnamed_fixed by (intro slugify_fixed [OF assms]) (auto simp: ustr_def)
  ultimately show ?thesis by simp
next
  case False
  then have e: "slugify U s = slug_core (lower U (py_strip s))" by (simp add: slugify_core)
  show ?thesis unfolding e
    using False by (intro slugify_fixed [OF assms] slug_core_chars slug_core_idem)
qed

theorem slugify_idempotent_witness:
  "lower_ok (lower ascii_runtime) \<and>
   slugify ascii_runtime (ustr ''Modern/Silk'') = ustr ''modern_silk'' \<and>
   slugify ascii_runtime (ustr ''modern_silk'') = ustr ''modern_silk''"
proof -
  have e: "slugify ascii_runtime (ustr ''Modern/Silk'') = ustr ''modern_silk''"
    by (simp add: slugify_def ascii_runtime_def ustr_def py_strip_def strip_by_def lstrip_by_def
        rstrip_by_def ascii_lower_def is_upper_az_def is_sep_or_space_def py_isspace_def
        re_keep_class_def is_slug_char_def is_lower_az_def is_digit_def)
  show ?thesis
    using slugify_idempotent [OF lower_ok_ascii_runtime, of "ustr ''Modern/Silk''"]
    by (simp add: e lower_ok_ascii_runtime)
qed

subsection \<open>sanitize_token\<close>












subsection \<open>download_with_retries\<close>

lemma try_body_transient:
  assumes "http env (calls w) url = Transient m"
  shows "try_body env url dest w = (Inr (Some m), w\<lparr>calls := Suc (calls w), log := log w @ [EvGet url]\<rparr>)"
  using assms by (simp add: try_body_def Let_def)

lemma upt_1_4: "[1..<3 + 1] = [1, 2, 3::nat]"
  by (simp add: upt_rec)

lemma download_three_failures:
  assumes h1: "http env (calls w) url = Transient m1"
    and h2: "http env (calls w + 1) url = Transient m2"
    and h3: "http env (calls w + 2) url = Transient m3"
  shows "download_with_retries env url dest 3 b w =
     (Inr (False, m3),
      w\<lparr>calls := calls w + 3,
        log := log w @ [EvGet url, EvSleep (b ^ 1), EvGet url, EvSleep (b ^ 2), EvGet url]\<rparr>)"
  unfolding download_with_retries_def upt_1_4
  using assms by (simp add: try_body_def Let_def)


lemma process_variations_three_failures:
  assumes p: "get_variation_pattern var = Inr (Some pattern)"
    and ne: "\<not> path_exists w (target_dir @ [pattern @ ustr ''.jpg''])"
    and h1: "http env (calls w) (build_download_url pattern) = Transient m1"
    and h2: "http env (calls w + 1) (build_download_url pattern) = Transient m2"
    and h3: "http env (calls w + 2) (build_download_url pattern) = Transient m3"
  shows "process_variations env coll_name sub_name target_dir (var # vars) t w =
     process_variations env coll_name sub_name target_dir vars
       (t\<lparr>failed := failed t + 1, errors := errors t @ [pattern @ ustr '': '' @ m3]\<rparr>)
       (w\<lparr>calls := calls w + 3,
          log := log w @ [EvGet (build_download_url pattern), EvSleep ((3 / 2) ^ 1),
                   EvGet (build_download_url pattern), EvSleep ((3 / 2) ^ 2),
                   EvGet (build_download_url pattern)]\<rparr>)"
  using p ne download_three_failures [OF h1 h2 h3, of "target_dir @ [pattern @ ustr ''.jpg'']" "3 / 2"]
  by (simp add: Let_def)


lemma mkdirs_ok:
  assumes "\<forall>a \<in> set as. a \<in> dirs fs \<or> mkdir_err env a = None"
  shows "mkdirs env as fs = (None, fs\<lparr>dirs := dirs fs \<union> set as\<rparr>)"
  using assms
proof (induction as arbitrary: fs)
  case Nil
  show ?case by simp
next
  case (Cons a as)
  show ?case
  proof (cases "a \<in> dirs fs")
    case True
    then have "insert a (dirs fs \<union> set as) = dirs fs \<union> set as" by auto
    with True Cons show ?thesis by simp
  next
    case False
    with Cons.prems have n: "mkdir_err env a = None" by simp
    have "\<forall>x \<in> set as. x \<in> dirs (fs\<lparr>dirs := insert a (dirs fs)\<rparr>) \<or> mkdir_err env x = None"
      using Cons.prems by auto
    from Cons.IH [OF this] False n show ?thesis by simp
  qed
qed

lemma mkdirs_log [simp]: "log (snd (mkdirs env as w)) = log w"
  by (induction as arbitrary: w) (auto split: option.splits)

lemma mkdirs_calls [simp]: "calls (snd (mkdirs env as w)) = calls w"
  by (induction as arbitrary: w) (auto split: option.splits)

lemma mkdirs_files [simp]: "files (snd (mkdirs env as w)) = files w"
  by (induction as arbitrary: w) (auto split: option.splits)

lemma mkdirs_seen [simp]: "seen (snd (mkdirs env as w)) = seen w"
  by (induction as arbitrary: w) (auto split: option.splits)

lemma try_body_ok:
  assumes b: "http env (calls w) url = Body data"
    and i: "io env (calls w) = NoFault"
    and m: "\<forall>a \<in> set (ancestors (butlast dest)). a \<in> dirs w \<or> mkdir_err env a = None"
    and d: "dest \<noteq> []"
  shows "try_body env url dest w =
     (Inr None,
      w\<lparr>dirs := dirs w \<union> set (ancestors (butlast dest)),
        files := (files w)(dest \<mapsto> data, part_sibling dest := None),
        calls := Suc (calls w),
        log := log w @ [EvGet url, EvMkdir (butlast dest), EvOpen (part_sibling dest),
                 EvWrite (part_sibling dest) data, EvReplace (part_sibling dest) dest],
        seen := seen w @ [(files w)(part_sibling dest \<mapsto> []),
                  (files w)(part_sibling dest \<mapsto> data),
                  (files w)(dest \<mapsto> data, part_sibling dest := None)]\<rparr>)"
proof -
  let ?w0 = "w\<lparr>calls := Suc (calls w), log := log w @ [EvGet url]\<rparr>"
  let ?w0' = "?w0\<lparr>log := log ?w0 @ [EvMkdir (butlast dest)]\<rparr>"
  have "\<forall>a \<in> set (ancestors (butlast dest)). a \<in> dirs ?w0' \<or> mkdir_err env a = None"
    using m by simp
  from mkdirs_ok [OF this]
  have "mkdir_parents env (butlast dest) ?w0' =
      (None, ?w0'\<lparr>dirs := dirs w \<union> set (ancestors (butlast dest))\<rparr>)"
    by (simp add: mkdir_parents_def)
  then show ?thesis
    using b i d by (simp add: try_body_def save_body_def Let_def)
qed


lemma download_first_attempt_ok:
  assumes b: "http env (calls w) url = Body data"
    and i: "io env (calls w) = NoFault"
    and m: "\<forall>a \<in> set (ancestors (butlast dest)). a \<in> dirs w \<or> mkdir_err env a = None"
    and d: "dest \<noteq> []"
  shows "download_with_retries env url dest (Suc r) b0 w =
     (Inr (True, ustr ''ok''),
      w\<lparr>dirs := dirs w \<union> set (ancestors (butlast dest)),
        files := (files w)(dest \<mapsto> data, part_sibling dest := None),
        calls := Suc (calls w),
        log := log w @ [EvGet url, EvMkdir (butlast dest), EvOpen (part_sibling dest),
                 EvWrite (part_sibling dest) data, EvReplace (part_sibling dest) dest],
        seen := seen w @ [(files w)(part_sibling dest \<mapsto> []),
                  (files w)(part_sibling dest \<mapsto> data),
                  (files w)(dest \<mapsto> data, part_sibling dest := None)]\<rparr>)"
proof -
  have "[1..<Suc r + 1] = 1 # [Suc 1..<Suc r + 1]" by (rule upt_conv_Cons) simp
  then show ?thesis
    unfolding download_with_retries_def
    by (simp only: dl_attempts.simps try_body_ok [OF b i m d] prod.case sum.case option.case)
qed

lemma try_body_no_body:
  assumes "\<forall>data. http env (calls w) url \<noteq> Body data"
  shows "dirs (snd (try_body env url dest w)) = dirs w \<and>
         files (snd (try_body env url dest w)) = files w \<and>
         calls (snd (try_body env url dest w)) = Suc (calls w) \<and>
         fst (try_body env url dest w) \<noteq> Inr None"
  using assms by (cases "http env (calls w) url") (auto simp: try_body_def Let_def)

lemma dl_attempts_no_body:
  assumes "\<forall>i < length as. \<forall>data. http env (calls w + i) url \<noteq> Body data"
  shows "dirs (snd (dl_attempts env url dest retries b as last_err w)) = dirs w \<and>
         files (snd (dl_attempts env url dest retries b as last_err w)) = files w"
  using assms
proof (induction as arbitrary: w last_err)
  case Nil
  show ?case by simp
next
  case (Cons attempt rest)
  from Cons.prems have h: "\<forall>data. http env (calls w) url \<noteq> Body data" by force
  note tb = try_body_no_body [OF h, of dest]
  obtain r w1 where t: "try_body env url dest w = (r, w1)" by (cases "try_body env url dest w")
  with tb have w1: "dirs w1 = dirs w" "files w1 = files w" "calls w1 = Suc (calls w)" "r \<noteq> Inr None"
    by simp_all
  show ?case
  proof (cases r)
    case (Inl x)
    with t w1 show ?thesis by simp
  next
    case (Inr o1)
    with w1 obtain msg where o1: "o1 = Some msg" by (cases o1) auto
    let ?w2 = "w1\<lparr>log := log w1 @ [EvSleep (b ^ attempt)]\<rparr>"
    have "\<forall>i < length rest. \<forall>data. http env (calls ?w2 + i) url \<noteq> Body data"
    proof (intro allI impI)
      fix i data assume "i < length rest"
      then have "Suc i < length (attempt # rest)" by simp
      with Cons.prems have "http env (calls w + Suc i) url \<noteq> Body data" by blast
      then show "http env (calls ?w2 + i) url \<noteq> Body data" using w1 by simp
    qed
    from Cons.IH [OF this, of "Some msg"] t Inr o1 w1 show ?thesis by simp
  qed
qed

lemma download_no_body_keeps_dirs:
  assumes "\<forall>i < retries. \<forall>data. http env (calls w + i) url \<noteq> Body data"
  shows "dirs (snd (download_with_retries env url dest retries b w)) = dirs w \<and>
         files (snd (download_with_retries env url dest retries b w)) = files w"
  unfolding download_with_retries_def
  using assms by (intro dl_attempts_no_body) simp






subsection \<open>process_all: failed and skipped tasks\<close>

lemma demo_pattern: "get_variation_pattern demo_variation = Inr (Some (ustr ''100-200''))"
  by (simp add: get_variation_pattern_def demo_variation_def obj_get_def py_or_def truthy_def
      str_strip_def ustr_def py_strip_def strip_by_def lstrip_by_def rstrip_by_def py_isspace_def)

lemma demo_url_eq: "build_download_url (ustr ''100-200'') = demo_url"
  by (simp add: build_download_url_def demo_url_def ustr_def py_strip_def strip_by_def
      lstrip_by_def rstrip_by_def py_isspace_def)


text \<open>
  C4. A download task whose destination does not exist and whose three calls of \<open>http_get\<close>
  all raise one of the caught exceptions: \<open>download_with_retries\<close> makes exactly three calls,
  sleeps \<open>backoff ^ 1\<close> after the first failure and \<open>backoff ^ 2\<close> after the second, does not
  sleep after the third, and returns \<open>(False, str(last error))\<close>; \<open>process_all\<close> then counts
  the task as failed, appends the one entry \<open>pattern: message\<close> and goes on with the next
  variation.
\<close>

theorem three_attempts_then_failed:
  assumes "get_variation_pattern var = Inr (Some pattern)"
    and "\<not> path_exists w (target_dir @ [pattern @ ustr ''.jpg''])"
    and "http env (calls w) (build_download_url pattern) = Transient m1"
    and "http env (calls w + 1) (build_download_url pattern) = Transient m2"
    and "http env (calls w + 2) (build_download_url pattern) = Transient m3"
  shows "download_with_retries env (build_download_url pattern)
           (target_dir @ [pattern @ ustr ''.jpg'']) 3 (3 / 2) w =
         (Inr (False, m3),
          w\<lparr>calls := calls w + 3,
            log := log w @ [EvGet (build_download_url pattern), EvSleep ((3 / 2) ^ 1),
                     EvGet (build_download_url pattern), EvSleep ((3 / 2) ^ 2),
                     EvGet (build_download_url pattern)]\<rparr>) \<and>
         process_variations env coll_name sub_name target_dir (var # vars) t w =
         process_variations env coll_name sub_name target_dir vars
           (t\<lparr>failed := failed t + 1, errors := errors t @ [pattern @ ustr '': '' @ m3]\<rparr>)
           (w\<lparr>calls := calls w + 3,
              log := log w @ [EvGet (build_download_url pattern), EvSleep ((3 / 2) ^ 1),
                       EvGet (build_download_url pattern), EvSleep ((3 / 2) ^ 2),
                       EvGet (build_download_url pattern)]\<rparr>)"
  using download_three_failures [OF assms(3-5)] process_variations_three_failures [OF assms]
  by blast

theorem three_attempts_then_failed_witness:
  "process_variations env_down (ustr ''Wools'') (ustr ''Heavy'') demo_dir [demo_variation]
     \<lparr> downloaded = 0, skipped = 0, failed = 0, errors = [] \<rparr> world0 =
   (Inr \<lparr> downloaded = 0, skipped = 0, failed = 1, errors = [ustr ''100-200: timed out''] \<rparr>,
    world0\<lparr>calls := 3,
      log := [EvGet demo_url, EvSleep (3 / 2), EvGet demo_url, EvSleep (9 / 4), EvGet demo_url]\<rparr>)"
proof -
  have ne: "\<not> path_exists world0 (demo_dir @ [ustr ''100-200'' @ ustr ''.jpg''])"
    by (simp add: path_exists_def world0_def)
  have h: "http env_down (calls world0) (build_download_url (ustr ''100-200'')) = Transient (ustr ''timed out'')"
    "http env_down (calls world0 + 1) (build_download_url (ustr ''100-200'')) = Transient (ustr ''timed out'')"
    "http env_down (calls world0 + 2) (build_download_url (ustr ''100-200'')) = Transient (ustr ''timed out'')"
    by (simp_all add: env_down_def)
  have q: "((3::rat) / 2) ^ 2 = 9 / 4" by (simp add: power2_eq_square)
  have c: "calls world0 = 0" "log world0 = []" by (simp_all add: world0_def)
  have m: "ustr ''100-200'' @ ustr '': '' @ ustr ''timed out'' = ustr ''100-200: timed out''"
    by (simp add: ustr_def)
  from three_attempts_then_failed [OF demo_pattern ne h, of "ustr ''Wools''" "ustr ''Heavy''" "[]"
      "\<lparr> downloaded = 0, skipped = 0, failed = 0, errors = [] \<rparr>"]
  show ?thesis
    by (simp add: demo_url_eq q c m)
qed



subsection \<open>Directories and the atomic save\<close>

lemma mkdirs_mono: "dirs fs \<subseteq> dirs (snd (mkdirs env as fs))"
proof (induction as arbitrary: fs)
  case Nil
  show ?case by simp
next
  case (Cons a as)
  show ?case
    using Cons [of fs] Cons [of "fs\<lparr>dirs := insert a (dirs fs)\<rparr>"]
    by (auto split: option.splits)
qed

lemma mkdirs_None:
  "fst (mkdirs env as fs) = None \<Longrightarrow> set as \<subseteq> dirs (snd (mkdirs env as fs))"
proof (induction as arbitrary: fs)
  case Nil
  show ?case by simp
next
  case (Cons a as)
  show ?case
  proof (cases "a \<in> dirs fs")
    case True
    with Cons.prems have "fst (mkdirs env as fs) = None" by simp
    from Cons.IH [OF this] True mkdirs_mono [of fs env as] show ?thesis by auto
  next
    case False
    with Cons.prems obtain n: "mkdir_err env a = None"
      and r: "fst (mkdirs env as (fs\<lparr>dirs := insert a (dirs fs)\<rparr>)) = None"
      by (cases "mkdir_err env a") auto
    from Cons.IH [OF r] mkdirs_mono [of "fs\<lparr>dirs := insert a (dirs fs)\<rparr>" env as] False n
    show ?thesis by auto
  qed
qed

lemma save_body_dirs:
  assumes "save_body env n dest data w = (r, w')"
  shows "dirs w \<subseteq> dirs w' \<and> (r = Inr None \<longrightarrow> set (ancestors (butlast dest)) \<subseteq> dirs w')"
proof -
  let ?w0 = "w\<lparr>log := log w @ [EvMkdir (butlast dest)]\<rparr>"
  obtain mr w1 where m: "mkdirs env (ancestors (butlast dest)) ?w0 = (mr, w1)"
    by (cases "mkdirs env (ancestors (butlast dest)) ?w0")
  have mono: "dirs w \<subseteq> dirs w1" using mkdirs_mono [of ?w0 env "ancestors (butlast dest)"] m by simp
  show ?thesis
  proof (cases mr)
    case (Some msg)
    with assms m mono show ?thesis by (auto simp: save_body_def mkdir_parents_def)
  next
    case None
    from mkdirs_None [of env "ancestors (butlast dest)" ?w0] m None
    have a: "set (ancestors (butlast dest)) \<subseteq> dirs w1" by simp
    from assms m None have "dirs w' = dirs w1"
      by (cases "io env n") (auto simp: save_body_def mkdir_parents_def Let_def split: if_splits)
    with a mono show ?thesis by simp
  qed
qed

lemma try_body_dirs:
  assumes "try_body env url dest w = (r, w')"
  shows "dirs w \<subseteq> dirs w' \<and> (r = Inr None \<longrightarrow> set (ancestors (butlast dest)) \<subseteq> dirs w')"
proof (cases "http env (calls w) url")
  case (Body data)
  let ?w0 = "w\<lparr>calls := Suc (calls w), log := log w @ [EvGet url]\<rparr>"
  from assms Body have "save_body env (calls w) dest data ?w0 = (r, w')"
    by (simp add: try_body_def Let_def)
  from save_body_dirs [OF this] show ?thesis by simp
next
  case (Transient msg)
  with assms show ?thesis by (auto simp: try_body_def Let_def)
next
  case (Uncaught x)
  with assms show ?thesis by (auto simp: try_body_def Let_def)
qed

lemma dl_attempts_dirs:
  assumes "dl_attempts env url dest retries b as last_err w = (r, w')"
  shows "dirs w \<subseteq> dirs w' \<and>
         (r = Inr (True, ustr ''ok'') \<longrightarrow> set (ancestors (butlast dest)) \<subseteq> dirs w')"
  using assms
proof (induction as arbitrary: w last_err)
  case Nil
  then show ?case by (auto simp: ustr_def)
next
  case (Cons attempt rest)
  obtain r1 w1 where t: "try_body env url dest w = (r1, w1)" by (cases "try_body env url dest w")
  note d1 = try_body_dirs [OF t]
  show ?case
  proof (cases r1)
    case (Inl x)
    with Cons.prems t d1 show ?thesis by auto
  next
    case (Inr res)
    show ?thesis
    proof (cases res)
      case None
      with Cons.prems t Inr d1 show ?thesis by auto
    next
      case (Some msg)
      show ?thesis
      proof (cases "attempt < retries")
        case False
        with Cons.prems t Inr Some d1 show ?thesis by (auto simp: ustr_def)
      next
        case True
        let ?w2 = "w1\<lparr>log := log w1 @ [EvSleep (b ^ attempt)]\<rparr>"
        from Cons.prems t Inr Some True
        have "dl_attempts env url dest retries b rest (Some msg) ?w2 = (r, w')" by simp
        from Cons.IH [OF this] d1 show ?thesis by auto
      qed
    qed
  qed
qed



lemma upt_1_4': "[1..<3 + 1] = [1, 2, 3::nat]"
  by (simp add: upt_rec)

lemma demo_ancestors:
  "ancestors (butlast demo_file) = [[ustr ''Texture''], [ustr ''Texture'', ustr ''Wools''],
     [ustr ''Texture'', ustr ''Wools'', ustr ''Heavy'']]"
  by (simp add: ancestors_def demo_file_def upt_rec)

lemma demo_part: "part_sibling demo_file =
   [ustr ''Texture'', ustr ''Wools'', ustr ''Heavy'', ustr ''100-200.jpg.part'']"
  by (simp add: part_sibling_def demo_file_def ustr_def)

lemma demo_part_neq: "part_sibling demo_file \<noteq> demo_file"
  by (simp add: demo_part) (simp add: demo_file_def ustr_def)



lemma up_run:
  "download_with_retries env_up demo_url demo_file 3 (3 / 2) world0 =
   (Inr (True, ustr ''ok''),
    world0\<lparr>dirs := set (ancestors (butlast demo_file)),
      files := [demo_file \<mapsto> [255, 216, 255]],
      calls := 1,
      log := [EvGet demo_url, EvMkdir (butlast demo_file), EvOpen (part_sibling demo_file),
              EvWrite (part_sibling demo_file) [255, 216, 255],
              EvReplace (part_sibling demo_file) demo_file],
      seen := [[part_sibling demo_file \<mapsto> []], [part_sibling demo_file \<mapsto> [255, 216, 255]],
               [demo_file \<mapsto> [255, 216, 255]]]\<rparr>)"
  unfolding download_with_retries_def upt_1_4'
  by (simp add: try_body_def save_body_def mkdir_parents_def demo_ancestors demo_part
      env_up_def world0_def Let_def)
     (auto simp: demo_file_def fun_eq_iff ustr_def)

lemma down_run:
  "download_with_retries env_down demo_url demo_file 3 (3 / 2) world0 =
   (Inr (False, ustr ''timed out''),
    world0\<lparr>calls := 3,
      log := [EvGet demo_url, EvSleep (3 / 2), EvGet demo_url, EvSleep (9 / 4), EvGet demo_url]\<rparr>)"
  unfolding download_with_retries_def upt_1_4'
  by (simp add: try_body_def env_down_def world0_def Let_def power2_eq_square)



text \<open>
  C10. \<open>download_with_retries\<close> itself makes the missing parent directories of the
  destination, all of them, after \<open>http_get\<close> has returned and before the sibling is
  opened, so it succeeds from a state with no directory at all; whenever it returns
  success the parents exist; and when no call of \<open>http_get\<close> returns a body it makes no
  directory.
\<close>

theorem parents_made_after_fetch:
  "(http env (calls w) url = Body data \<and> io env (calls w) = NoFault \<and> dest \<noteq> [] \<and>
    (\<forall>a \<in> set (ancestors (butlast dest)). a \<in> dirs w \<or> mkdir_err env a = None) \<longrightarrow>
      download_with_retries env url dest (Suc n) b w =
        (Inr (True, ustr ''ok''),
         w\<lparr>dirs := dirs w \<union> set (ancestors (butlast dest)),
           files := (files w)(dest \<mapsto> data, part_sibling dest := None),
           calls := Suc (calls w),
           log := log w @ [EvGet url, EvMkdir (butlast dest), EvOpen (part_sibling dest),
                    EvWrite (part_sibling dest) data, EvReplace (part_sibling dest) dest],
           seen := seen w @ [(files w)(part_sibling dest \<mapsto> []),
                     (files w)(part_sibling dest \<mapsto> data),
                     (files w)(dest \<mapsto> data, part_sibling dest := None)]\<rparr>)) \<and>
   (download_with_retries env url dest retries b w = (Inr (True, ustr ''ok''), w') \<longrightarrow>
      set (ancestors (butlast dest)) \<subseteq> dirs w') \<and>
   ((\<forall>i < retries. \<forall>body. http env (calls w + i) url \<noteq> Body body) \<longrightarrow>
      dirs (snd (download_with_retries env url dest retries b w)) = dirs w)"
proof (intro conjI impI)
  assume "http env (calls w) url = Body data \<and> io env (calls w) = NoFault \<and> dest \<noteq> [] \<and>
    (\<forall>a \<in> set (ancestors (butlast dest)). a \<in> dirs w \<or> mkdir_err env a = None)"
  then show "download_with_retries env url dest (Suc n) b w =
        (Inr (True, ustr ''ok''),
         w\<lparr>dirs := dirs w \<union> set (ancestors (butlast dest)),
           files := (files w)(dest \<mapsto> data, part_sibling dest := None),
           calls := Suc (calls w),
           log := log w @ [EvGet url, EvMkdir (butlast dest), EvOpen (part_sibling dest),
                    EvWrite (part_sibling dest) data, EvReplace (part_sibling dest) dest],
           seen := seen w @ [(files w)(part_sibling dest \<mapsto> []),
                     (files w)(part_sibling dest \<mapsto> data),
                     (files w)(dest \<mapsto> data, part_sibling dest := None)]\<rparr>)"
    by (intro download_first_attempt_ok) simp_all
next
  assume "download_with_retries env url dest retries b w = (Inr (True, ustr ''ok''), w')"
  then show "set (ancestors (butlast dest)) \<subseteq> dirs w'"
    unfolding download_with_retries_def using dl_attempts_dirs by blast
next
  assume "\<forall>i < retries. \<forall>body. http env (calls w + i) url \<noteq> Body body"
  then show "dirs (snd (download_with_retries env url dest retries b w)) = dirs w"
    using download_no_body_keeps_dirs by blast
qed

theorem parents_made_after_fetch_witness:
  "dirs world0 = {} \<and>
   fst (download_with_retries env_up demo_url demo_file 3 (3 / 2) world0) = Inr (True, ustr ''ok'') \<and>
   dirs (snd (download_with_retries env_up demo_url demo_file 3 (3 / 2) world0)) =
     {[ustr ''Texture''], [ustr ''Texture'', ustr ''Wools''],
      [ustr ''Texture'', ustr ''Wools'', ustr ''Heavy'']} \<and>
   files (snd (download_with_retries env_up demo_url demo_file 3 (3 / 2) world0)) demo_file =
     Some [255, 216, 255] \<and>
   fst (download_with_retries env_down demo_url demo_file 3 (3 / 2) world0) =
     Inr (False, ustr ''timed out'') \<and>
   dirs (snd (download_with_retries env_down demo_url demo_file 3 (3 / 2) world0)) = {}"
proof -
  note th1 = parents_made_after_fetch [of env_up world0 demo_url "[255, 216, 255]" demo_file 2
      "3 / 2" 3 "snd (download_with_retries env_up demo_url demo_file 3 (3 / 2) world0)"]
  note th2 = parents_made_after_fetch [of env_down world0 demo_url "[]" demo_file 2
      "3 / 2" 3 "snd (download_with_retries env_down demo_url demo_file 3 (3 / 2) world0)"]
  have h: "http env_up (calls world0) demo_url = Body [255, 216, 255]"
    "io env_up (calls world0) = NoFault" "demo_file \<noteq> []"
    "\<forall>a \<in> set (ancestors (butlast demo_file)). a \<in> dirs world0 \<or> mkdir_err env_up a = None"
    by (simp_all add: env_up_def world0_def demo_file_def)
  have s3: "Suc 2 = (3::nat)" by simp
  from th1 h have u: "download_with_retries env_up demo_url demo_file 3 (3 / 2) world0 =
        (Inr (True, ustr ''ok''),
         world0\<lparr>dirs := dirs world0 \<union> set (ancestors (butlast demo_file)),
           files := (files world0)(demo_file \<mapsto> [255, 216, 255], part_sibling demo_file := None),
           calls := Suc (calls world0),
           log := log world0 @ [EvGet demo_url, EvMkdir (butlast demo_file), EvOpen (part_sibling demo_file),
                    EvWrite (part_sibling demo_file) [255, 216, 255], EvReplace (part_sibling demo_file) demo_file],
           seen := seen world0 @ [(files world0)(part_sibling demo_file \<mapsto> []),
                     (files world0)(part_sibling demo_file \<mapsto> [255, 216, 255]),
                     (files world0)(demo_file \<mapsto> [255, 216, 255], part_sibling demo_file := None)]\<rparr>)"
    unfolding s3 by blast
  have d0: "dirs world0 = {}" by (simp add: world0_def)
  have 1: "fst (download_with_retries env_up demo_url demo_file 3 (3 / 2) world0) = Inr (True, ustr ''ok'')"
    by (simp add: u)
  have 2: "dirs (snd (download_with_retries env_up demo_url demo_file 3 (3 / 2) world0)) =
     {[ustr ''Texture''], [ustr ''Texture'', ustr ''Wools''],
      [ustr ''Texture'', ustr ''Wools'', ustr ''Heavy'']}"
    by (simp add: u d0 demo_ancestors)
  have 3: "files (snd (download_with_retries env_up demo_url demo_file 3 (3 / 2) world0)) demo_file =
     Some [255, 216, 255]"
    using demo_part_neq by (simp add: u)
  have "\<forall>i < 3. \<forall>body. http env_down (calls world0 + i) demo_url \<noteq> Body body"
    by (simp add: env_down_def)
  with th2 have 5: "dirs (snd (download_with_retries env_down demo_url demo_file 3 (3 / 2) world0)) = {}"
    unfolding d0 by blast
  have 4: "fst (download_with_retries env_down demo_url demo_file 3 (3 / 2) world0) =
     Inr (False, ustr ''timed out'')"
    by (simp add: down_run)
  show ?thesis using d0 1 2 3 4 5 by blast
qed

subsection \<open>The catalog: blank names, variations without a pattern, field names\<close>

lemmas str_defs = ustr_def py_strip_def strip_by_def lstrip_by_def rstrip_by_def py_isspace_def
lemmas json_defs = obj_get_def py_or_def truthy_def str_strip_def py_iter_def

lemma legacy_name: "get_collection_name legacy_collection = Inr (ustr ''Wools'')"
  by (simp add: get_collection_name_def legacy_collection_def json_defs str_defs)

lemma legacy_col_name_of:
  "col_name_of [(ustr ''collection'', JStr (ustr ''Wools'')), (ustr ''subcollection'', x)] = JStr (ustr ''collection'')"
  by (simp add: col_name_of_def json_defs ustr_def)

lemma slug_collection: "slugify ascii_runtime (ustr ''collection'') = ustr ''collection''"
  by (simp add: slugify_def ascii_runtime_def str_defs ascii_lower_def is_upper_az_def
      is_sep_or_space_def re_keep_class_def is_slug_char_def is_lower_az_def is_digit_def)

lemma slug_heavy: "slugify ascii_runtime (ustr ''Heavy'') = ustr ''heavy''"
  by (simp add: slugify_def ascii_runtime_def str_defs ascii_lower_def is_upper_az_def
      is_sep_or_space_def re_keep_class_def is_slug_char_def is_lower_az_def is_digit_def)

lemma slug_blank: "slugify ascii_runtime (ustr '' '') = ustr ''unnamed''"
  by (simp add: slugify_def ascii_runtime_def str_defs ascii_lower_def is_upper_az_def
      is_sep_or_space_def re_keep_class_def is_slug_char_def is_lower_az_def is_digit_def)

lemma slug_subcollection: "slugify ascii_runtime (ustr ''subcollection'') = ustr ''subcollection''"
  by (simp add: slugify_def ascii_runtime_def str_defs ascii_lower_def is_upper_az_def
      is_sep_or_space_def re_keep_class_def is_slug_char_def is_lower_az_def is_digit_def)


lemma ancestors_Nil: "ancestors [] = []"
  by (simp add: ancestors_def)

lemma ancestors_Cons: "ancestors (x # p) = [x] # map ((#) x) (ancestors p)"
proof -
  have "[1..<Suc (length (x # p))] = 1 # map Suc [1..<Suc (length p)]"
    by (simp add: upt_conv_Cons map_Suc_upt del: upt_Suc)
  then show ?thesis by (simp add: ancestors_def del: upt_Suc)
qed

lemma ensure_dir_permissive:
  assumes "\<forall>a. mkdir_err env a = None"
  shows "ensure_dir env p fs =
     (if path_exists fs p then (False, fs) else (True, fs\<lparr>dirs := dirs fs \<union> set (ancestors p)\<rparr>))"
proof -
  have "\<forall>a \<in> set (ancestors p). a \<in> dirs fs \<or> mkdir_err env a = None" using assms by simp
  from mkdirs_ok [OF this] show ?thesis by (simp add: ensure_dir_def mkdir_parents_def)
qed

lemma env_up_permissive: "\<forall>a. mkdir_err env_up a = None"
  by (simp add: env_up_def)

lemma legacy_structure:
  "create_structure ascii_runtime env_up [legacy_collection] [ustr ''Texture''] world0 =
   (Inr \<lparr> created_collections = 1, existing_collections = 0,
           created_subcollections = 1, existing_subcollections = 0 \<rparr>,
    world0\<lparr>dirs := {[ustr ''Texture''], [ustr ''Texture'', ustr ''collection''],
                     [ustr ''Texture'', ustr ''collection'', ustr ''heavy'']}\<rparr>)"
proof -
  have c: "col_name_of [(ustr ''collection'', JStr (ustr ''Wools'')), (ustr ''subcollection'', x)] = JStr (ustr ''collection'')" for x
    by (rule legacy_col_name_of)
  have s: "sub_name_of [(ustr ''name'', JStr (ustr ''Heavy'')), (ustr ''variation'', x)] = JStr (ustr ''Heavy'')" for x
    by (simp add: sub_name_of_def json_defs ustr_def)
  have g: "obj_get [(ustr ''collection'', JStr (ustr ''Wools'')), (ustr ''subcollection'', x)] ''subcollection'' = x" for x
    by (simp add: obj_get_def ustr_def)
  have e1: "\<not> path_exists world0 [ustr ''Texture'', ustr ''collection'']"
    by (simp add: path_exists_def world0_def)
  show ?thesis
    unfolding create_structure_def legacy_collection_def
    apply (simp add: c s g slug_collection slug_heavy ensure_dir_permissive [OF env_up_permissive]
       ancestors_Cons ancestors_Nil py_or_def truthy_def py_iter_def Let_def
       path_exists_def world0_def)
    apply (auto simp: ustr_def)
    done
qed


lemma blank_name: "get_collection_name blank_collection = Inr []"
  by (simp add: get_collection_name_def blank_collection_def json_defs str_defs)

lemma blank_structure:
  "create_structure ascii_runtime env_up [blank_collection] [ustr ''Texture''] world0 =
   (Inr \<lparr> created_collections = 1, existing_collections = 0,
           created_subcollections = 2, existing_subcollections = 0 \<rparr>,
    world0\<lparr>dirs := {[ustr ''Texture''], [ustr ''Texture'', ustr ''collection''],
                     [ustr ''Texture'', ustr ''collection'', ustr ''unnamed''],
                     [ustr ''Texture'', ustr ''collection'', ustr ''subcollection'']}\<rparr>)"
proof -
  have c: "col_name_of [(ustr ''collection-name'', JStr []), (ustr ''subcollection'', x)] = JStr (ustr ''collection'')" for x
    by (simp add: col_name_of_def json_defs ustr_def)
  have s1: "sub_name_of [(ustr ''subcollection-name'', JStr (ustr '' ''))] = JStr (ustr '' '')"
    by (simp add: sub_name_of_def json_defs ustr_def)
  have s2: "sub_name_of [(ustr ''subcollection-name'', JStr [])] = JStr (ustr ''subcollection'')"
    by (simp add: sub_name_of_def json_defs ustr_def)
  have g: "obj_get [(ustr ''collection-name'', JStr []), (ustr ''subcollection'', x)] ''subcollection'' = x" for x
    by (simp add: obj_get_def ustr_def)
  show ?thesis
    unfolding create_structure_def blank_collection_def
    apply (simp add: c s1 s2 g slug_collection slug_blank slug_subcollection
       ensure_dir_permissive [OF env_up_permissive]
       ancestors_Cons ancestors_Nil py_or_def truthy_def py_iter_def Let_def
       path_exists_def world0_def)
    apply (auto simp: ustr_def)
    done
qed

lemmas tok_defs = strip_accents_def re_keep_class_def is_token_char_def is_upper_az_def
  is_lower_az_def is_digit_def ascii_upper_def

lemma tok_wools: "sanitize_token ascii_runtime (Some (ustr ''Wools'')) = ustr ''WOOLS''"
  by (simp add: ascii_runtime_def str_defs tok_defs)

lemma tok_heavy: "sanitize_token ascii_runtime (Some (ustr ''Heavy'')) = ustr ''HEAVY''"
  by (simp add: ascii_runtime_def str_defs tok_defs)

lemma tok_red: "sanitize_token ascii_runtime (Some (ustr ''Red'')) = ustr ''RED''"
  by (simp add: ascii_runtime_def str_defs tok_defs)

lemma folder_wools: "sanitize_folder (ustr ''Wools'') = ustr ''Wools''"
  by (simp add: sanitize_folder_def re_sub_each_def is_invalid_win_def str_defs)

lemma folder_heavy: "sanitize_folder (ustr ''Heavy'') = ustr ''Heavy''"
  by (simp add: sanitize_folder_def re_sub_each_def is_invalid_win_def str_defs)

lemma bare_string_no_pattern: "get_variation_pattern (JStr s) = Inr None"
  by (simp add: get_variation_pattern_def)

lemma bare_string_label: "get_variation_label R (JStr s) = Inr (py_strip s)"
  by (simp add: get_variation_label_def)

lemma strip_red: "py_strip (ustr ''Red'') = ustr ''Red''"
  by (simp add: str_defs)

lemma legacy_sub_name:
  "get_subcollection_name (JObj [(ustr ''name'', JStr (ustr ''Heavy'')), (ustr ''variation'', x)]) = Inr (ustr ''Heavy'')"
  by (simp add: get_subcollection_name_def json_defs str_defs)

lemma legacy_var_list:
  "get_variations_list (JObj [(ustr ''name'', JStr (ustr ''Heavy'')), (ustr ''variation'', JArr [JStr (ustr ''Red'')])])
     = Inr (JArr [JStr (ustr ''Red'')])"
  by (simp add: get_variations_list_def json_defs ustr_def Let_def)

lemma legacy_sub_list:
  "get_subcollection_list legacy_collection =
     Inr (JArr [JObj [(ustr ''name'', JStr (ustr ''Heavy'')), (ustr ''variation'', JArr [JStr (ustr ''Red'')])]])"
  by (simp add: get_subcollection_list_def legacy_collection_def json_defs ustr_def)

lemma legacy_specs:
  "build_material_specs ascii_runtime (JArr [legacy_collection]) demo_fs_root demo_asset_root =
   Inr [\<lparr> name = ustr ''MI_WOOLS_HEAVY_RED'',
          package_path = ustr ''/Game/Materials/MayerFabrics/Wools/Heavy'',
          asset_path = ustr ''/Game/Materials/MayerFabrics/Wools/Heavy/MI_WOOLS_HEAVY_RED'',
          object_path = ustr ''/Game/Materials/MayerFabrics/Wools/Heavy/MI_WOOLS_HEAVY_RED.MI_WOOLS_HEAVY_RED'',
          filesystem_path = [ustr ''Content'', ustr ''Materials'', ustr ''MayerFabrics'',
                             ustr ''Wools'', ustr ''Heavy'', ustr ''MI_WOOLS_HEAVY_RED.uasset''],
          parent = ustr ''/Game/Materials/MI_Sample.MI_Sample'' \<rparr>]"
  unfolding build_material_specs_def
  apply (simp add: py_or_def truthy_def py_iter_def legacy_name legacy_sub_list legacy_sub_name
      legacy_var_list bare_string_label strip_red tok_wools tok_heavy tok_red folder_wools folder_heavy
      Let_def del: sanitize_token.simps)
  apply (simp add: ustr_def demo_fs_root_def demo_asset_root_def PARENT_MATERIAL_OBJECT_PATH_def)
  done


lemma slugify_blank:
  assumes "lower_ok (lower R)" and "\<forall>c \<in> set s. py_isspace c"
  shows "slugify R s = ustr ''unnamed''"
proof -
  have d: "dropWhile py_isspace s = []" using assms(2) by simp
  have "py_strip s = []"
    unfolding py_strip_def strip_by_def lstrip_by_def rstrip_by_def d by simp
  moreover have "lower R [] = []" using assms(1) by (simp add: lower_ok_def)
  moreover have "slug_core [] = []"
    by (simp add: slug_core_def strip_by_def lstrip_by_def rstrip_by_def)
  ultimately show ?thesis by (simp add: slugify_core)
qed

lemma self_in_ancestors: "p \<noteq> [] \<Longrightarrow> p \<in> set (ancestors p)"
proof -
  assume "p \<noteq> []"
  then have "length p \<in> set [1..<Suc (length p)]" by (cases p) auto
  then have "take (length p) p \<in> set (ancestors p)"
    unfolding ancestors_def by (simp only: set_map image_eqI)
  then show ?thesis by simp
qed

lemma ensure_dir_keeps:
  "path_exists fs q \<Longrightarrow> path_exists (snd (ensure_dir env p fs)) q"
proof -
  assume q: "path_exists fs q"
  obtain mr fs' where m: "mkdirs env (ancestors p) fs = (mr, fs')"
    by (cases "mkdirs env (ancestors p) fs")
  have "dirs fs \<subseteq> dirs fs'" using mkdirs_mono [of fs env "ancestors p"] m by simp
  moreover have "files fs' = files fs" using mkdirs_files [of env "ancestors p" fs] m by simp
  ultimately have "path_exists fs' q" using q by (auto simp: path_exists_def)
  then show ?thesis
    using q m by (cases mr) (simp_all add: ensure_dir_def mkdir_parents_def)
qed

lemma ensure_dir_makes:
  assumes "\<forall>a. mkdir_err env a = None" and "p \<noteq> []"
  shows "path_exists (snd (ensure_dir env p fs)) p"
  using self_in_ancestors [OF assms(2)]
  by (simp add: ensure_dir_permissive [OF assms(1)] path_exists_def)

lemma create_subcollections_keeps:
  "path_exists fs q \<Longrightarrow> path_exists (snd (create_subcollections R env col_path subs sm fs)) q"
proof (induction subs arbitrary: sm fs)
  case Nil
  then show ?case by simp
next
  case (Cons sub subs)
  show ?case
  proof (cases sub)
    case (JObj kvs)
    show ?thesis
    proof (cases "sub_name_of kvs")
      case (JStr sub_name)
      let ?p = "col_path @ [slugify R sub_name]"
      obtain c fs' where e: "ensure_dir env ?p fs = (c, fs')" by (cases "ensure_dir env ?p fs")
      with ensure_dir_keeps [OF Cons.prems, of env ?p] have k: "path_exists fs' q" by simp
      from Cons.IH [OF k] JObj JStr e show ?thesis by (cases c) (simp_all add: Let_def)
    qed (use JObj Cons.prems in simp_all)
  qed (use Cons.prems in simp_all)
qed

lemma create_collections_keeps:
  "path_exists fs q \<Longrightarrow> path_exists (snd (create_collections R env dest colls sm fs)) q"
proof (induction colls arbitrary: sm fs)
  case Nil
  then show ?case by simp
next
  case (Cons coll colls)
  show ?case
  proof (cases coll)
    case (JObj kvs)
    show ?thesis
    proof (cases "col_name_of kvs")
      case (JStr col_name)
      let ?p = "dest @ [slugify R col_name]"
      obtain c fs1 where e: "ensure_dir env ?p fs = (c, fs1)" by (cases "ensure_dir env ?p fs")
      with ensure_dir_keeps [OF Cons.prems, of env ?p] have k: "path_exists fs1 q" by simp
      let ?sm1 = "if c then sm\<lparr>created_collections := created_collections sm + 1\<rparr>
                  else sm\<lparr>existing_collections := existing_collections sm + 1\<rparr>"
      show ?thesis
      proof (cases "py_iter (py_or (obj_get kvs ''subcollection'') (JArr []))")
        case (Inl err)
        with JObj JStr e k show ?thesis by (simp add: Let_def)
      next
        case (Inr subs)
        obtain r2 fs2 where s: "create_subcollections R env ?p subs ?sm1 fs1 = (r2, fs2)"
          by (cases "create_subcollections R env ?p subs ?sm1 fs1")
        with create_subcollections_keeps [OF k, of R env ?p subs ?sm1]
        have k2: "path_exists fs2 q" by simp
        show ?thesis
        proof (cases r2)
          case (Inl err)
          with JObj JStr e Inr s k2 show ?thesis by (simp add: Let_def)
        next
          case (Inr sm2)
          with JObj JStr e \<open>py_iter _ = Inr subs\<close> s Cons.IH [OF k2, of sm2]
          show ?thesis by (simp add: Let_def)
        qed
      qed
    qed (use JObj Cons.prems in simp_all)
  qed (use Cons.prems in simp_all)
qed

lemma create_collections_makes:
  assumes n: "col_name_of kvs = JStr col_name" and m: "\<forall>a. mkdir_err env a = None"
  shows "path_exists (snd (create_collections R env dest (JObj kvs # rest) sm fs))
           (dest @ [slugify R col_name])"
proof -
  let ?p = "dest @ [slugify R col_name]"
  obtain c fs1 where e: "ensure_dir env ?p fs = (c, fs1)" by (cases "ensure_dir env ?p fs")
  with ensure_dir_makes [OF m, of ?p fs] have k: "path_exists fs1 ?p" by simp
  let ?sm1 = "if c then sm\<lparr>created_collections := created_collections sm + 1\<rparr>
              else sm\<lparr>existing_collections := existing_collections sm + 1\<rparr>"
  show ?thesis
  proof (cases "py_iter (py_or (obj_get kvs ''subcollection'') (JArr []))")
    case (Inl err)
    with n e k show ?thesis by (simp add: Let_def)
  next
    case (Inr subs)
    obtain r2 fs2 where s: "create_subcollections R env ?p subs ?sm1 fs1 = (r2, fs2)"
      by (cases "create_subcollections R env ?p subs ?sm1 fs1")
    with create_subcollections_keeps [OF k, of R env ?p subs ?sm1]
    have k2: "path_exists fs2 ?p" by simp
    show ?thesis
    proof (cases r2)
      case (Inl err)
      with n e Inr s k2 show ?thesis by (simp add: Let_def)
    next
      case (Inr sm2)
      with n e \<open>py_iter _ = Inr subs\<close> s create_collections_keeps [OF k2, of R env dest rest sm2]
      show ?thesis by (simp add: Let_def)
    qed
  qed
qed


lemma create_subcollections_makes:
  assumes m: "\<forall>a. mkdir_err env a = None"
    and wf: "\<forall>sub \<in> set subs. \<exists>skvs n. sub = JObj skvs \<and> sub_name_of skvs = JStr n"
    and i: "JObj skvs \<in> set subs" and n: "sub_name_of skvs = JStr sub_name"
  shows "path_exists (snd (create_subcollections R env col_path subs sm fs))
           (col_path @ [slugify R sub_name])"
  using wf i
proof (induction subs arbitrary: sm fs)
  case Nil
  then show ?case by simp
next
  case (Cons sub subs)
  from Cons.prems(1) obtain kvs0 n0 where s: "sub = JObj kvs0" and n0: "sub_name_of kvs0 = JStr n0"
    by auto
  let ?p0 = "col_path @ [slugify R n0]"
  obtain c fs' where e: "ensure_dir env ?p0 fs = (c, fs')" by (cases "ensure_dir env ?p0 fs")
  let ?sm' = "if c then sm\<lparr>created_subcollections := created_subcollections sm + 1\<rparr>
              else sm\<lparr>existing_subcollections := existing_subcollections sm + 1\<rparr>"
  have step: "create_subcollections R env col_path (sub # subs) sm fs =
      create_subcollections R env col_path subs ?sm' fs'"
    using s n0 e by (cases c) (simp_all add: Let_def)
  show ?case
  proof (cases "JObj skvs = sub")
    case True
    with s n n0 have "n0 = sub_name" by simp
    with ensure_dir_makes [OF m, of ?p0 fs] e have "path_exists fs' (col_path @ [slugify R sub_name])"
      by simp
    from create_subcollections_keeps [OF this] show ?thesis unfolding step .
  next
    case False
    with Cons.prems(2) have "JObj skvs \<in> set subs" by simp
    moreover from Cons.prems(1)
    have "\<forall>sub \<in> set subs. \<exists>skvs n. sub = JObj skvs \<and> sub_name_of skvs = JStr n" by simp
    ultimately show ?thesis unfolding step using Cons.IH by blast
  qed
qed

lemma create_collections_makes_sub:
  assumes c: "col_name_of kvs = JStr col_name"
    and it: "py_iter (py_or (obj_get kvs ''subcollection'') (JArr [])) = Inr subs"
    and m: "\<forall>a. mkdir_err env a = None"
    and wf: "\<forall>sub \<in> set subs. \<exists>skvs n. sub = JObj skvs \<and> sub_name_of skvs = JStr n"
    and i: "JObj skvs \<in> set subs" and n: "sub_name_of skvs = JStr sub_name"
  shows "path_exists (snd (create_collections R env dest (JObj kvs # rest) sm fs))
           (dest @ [slugify R col_name, slugify R sub_name])"
proof -
  let ?p = "dest @ [slugify R col_name]"
  let ?q = "dest @ [slugify R col_name, slugify R sub_name]"
  obtain cr fs1 where e: "ensure_dir env ?p fs = (cr, fs1)" by (cases "ensure_dir env ?p fs")
  let ?sm1 = "if cr then sm\<lparr>created_collections := created_collections sm + 1\<rparr>
              else sm\<lparr>existing_collections := existing_collections sm + 1\<rparr>"
  obtain r2 fs2 where s: "create_subcollections R env ?p subs ?sm1 fs1 = (r2, fs2)"
    by (cases "create_subcollections R env ?p subs ?sm1 fs1")
  from create_subcollections_makes [OF m wf i n, of R ?p ?sm1 fs1] s
  have k2: "path_exists fs2 ?q" by simp
  show ?thesis
  proof (cases r2)
    case (Inl err)
    with c e it s k2 show ?thesis by (simp add: Let_def)
  next
    case (Inr sm2)
    with c e it s create_collections_keeps [OF k2, of R env dest rest sm2]
    show ?thesis by (simp add: Let_def)
  qed
qed

text \<open>
  C1, as stated, fails: a collection whose name is empty (under \<open>collection-name\<close>, \<open>collection\<close>
  and \<open>name\<close> alike) is not dropped by \<open>create_structure\<close>. It is named \<open>collection\<close>, its
  directory is made, and its subcollections are processed: the one named by a blank
  becomes \<open>unnamed\<close>, the one with an empty name \<open>subcollection\<close>.
\<close>

theorem blank_names_counterexample:
  "get_collection_name blank_collection = Inr [] \<and>
   create_structure ascii_runtime env_up [blank_collection] [ustr ''Texture''] world0 =
     (Inr \<lparr> created_collections = 1, existing_collections = 0,
             created_subcollections = 2, existing_subcollections = 0 \<rparr>,
      world0\<lparr>dirs := {[ustr ''Texture''], [ustr ''Texture'', ustr ''collection''],
                       [ustr ''Texture'', ustr ''collection'', ustr ''unnamed''],
                       [ustr ''Texture'', ustr ''collection'', ustr ''subcollection'']}\<rparr>)"
  using blank_name blank_structure by blast

text \<open>
  C1, amended. \<open>build_material_specs\<close> and \<open>process_all\<close> drop a Collection, and a
  Subcollection, whose resolved name is empty or blank: nothing beneath it is processed
  and no name is put in its place. \<open>create_structure\<close> does not drop it: a Collection whose
  \<open>collection-name\<close> and \<open>name\<close> are both missing or empty is named \<open>collection\<close>, such a
  Subcollection \<open>subcollection\<close>, a name of white space only gives the slug \<open>unnamed\<close>; the
  directory of that name exists afterwards, for a Collection and for a Subcollection, and
  what is beneath a Collection is processed: the directory of each of its
  Subcollections exists afterwards (when the system lets directories be made and the
  names of the Subcollections are strings).
\<close>

theorem blank_names_dropped:
  "(get_collection_name coll = Inr [] \<longrightarrow>
      specs_of_collections R base_fs base_asset (coll # colls) =
        specs_of_collections R base_fs base_asset colls \<and>
      process_collections env dest_root (coll # colls) t w =
        process_collections env dest_root colls t w) \<and>
   (get_subcollection_name sub = Inr [] \<longrightarrow>
      specs_of_subcollections R base_fs base_asset coll_raw coll_folder (sub # subs) =
        specs_of_subcollections R base_fs base_asset coll_raw coll_folder subs \<and>
      process_subcollections env dest_root coll_raw coll_folder (sub # subs) t w =
        process_subcollections env dest_root coll_raw coll_folder subs t w) \<and>
   (\<not> truthy (obj_get kvs ''collection-name'') \<and> \<not> truthy (obj_get kvs ''name'') \<longrightarrow>
      col_name_of kvs = JStr (ustr ''collection'')) \<and>
   (\<not> truthy (obj_get kvs ''subcollection-name'') \<and> \<not> truthy (obj_get kvs ''name'') \<longrightarrow>
      sub_name_of kvs = JStr (ustr ''subcollection'')) \<and>
   (lower_ok (lower R) \<and> (\<forall>c \<in> set s. py_isspace c) \<longrightarrow> slugify R s = ustr ''unnamed'') \<and>
   (col_name_of kvs = JStr col_name \<and> (\<forall>a. mkdir_err env a = None) \<longrightarrow>
      path_exists (snd (create_collections R env dest (JObj kvs # rest) sm fs))
        (dest @ [slugify R col_name])) \<and>
   ((\<forall>a. mkdir_err env a = None) \<and>
    (\<forall>x \<in> set sublist. \<exists>xkvs n. x = JObj xkvs \<and> sub_name_of xkvs = JStr n) \<and>
    JObj skvs \<in> set sublist \<and> sub_name_of skvs = JStr sub_name \<longrightarrow>
      path_exists (snd (create_subcollections R env col_path sublist sm fs))
        (col_path @ [slugify R sub_name])) \<and>
   (col_name_of kvs = JStr col_name \<and>
    py_iter (py_or (obj_get kvs ''subcollection'') (JArr [])) = Inr sublist \<and>
    (\<forall>a. mkdir_err env a = None) \<and>
    (\<forall>x \<in> set sublist. \<exists>xkvs n. x = JObj xkvs \<and> sub_name_of xkvs = JStr n) \<and>
    JObj skvs \<in> set sublist \<and> sub_name_of skvs = JStr sub_name \<longrightarrow>
      path_exists (snd (create_collections R env dest (JObj kvs # rest) sm fs))
        (dest @ [slugify R col_name, slugify R sub_name]))"
proof (intro conjI impI)
  assume "lower_ok (lower R) \<and> (\<forall>c \<in> set s. py_isspace c)"
  then show "slugify R s = ustr ''unnamed''" using slugify_blank by blast
next
  assume "col_name_of kvs = JStr col_name \<and> (\<forall>a. mkdir_err env a = None)"
  then show "path_exists (snd (create_collections R env dest (JObj kvs # rest) sm fs))
        (dest @ [slugify R col_name])"
    using create_collections_makes by blast
next
  assume "(\<forall>a. mkdir_err env a = None) \<and>
    (\<forall>x \<in> set sublist. \<exists>xkvs n. x = JObj xkvs \<and> sub_name_of xkvs = JStr n) \<and>
    JObj skvs \<in> set sublist \<and> sub_name_of skvs = JStr sub_name"
  then show "path_exists (snd (create_subcollections R env col_path sublist sm fs))
        (col_path @ [slugify R sub_name])"
    using create_subcollections_makes [where subs = sublist and skvs = skvs] by blast
next
  assume "col_name_of kvs = JStr col_name \<and>
    py_iter (py_or (obj_get kvs ''subcollection'') (JArr [])) = Inr sublist \<and>
    (\<forall>a. mkdir_err env a = None) \<and>
    (\<forall>x \<in> set sublist. \<exists>xkvs n. x = JObj xkvs \<and> sub_name_of xkvs = JStr n) \<and>
    JObj skvs \<in> set sublist \<and> sub_name_of skvs = JStr sub_name"
  then show "path_exists (snd (create_collections R env dest (JObj kvs # rest) sm fs))
        (dest @ [slugify R col_name, slugify R sub_name])"
    using create_collections_makes_sub [where subs = sublist and skvs = skvs] by blast
qed (simp_all add: col_name_of_def sub_name_of_def py_or_def)

theorem blank_names_dropped_witness:
  "get_collection_name blank_collection = Inr [] \<and>
   specs_of_collections ascii_runtime demo_fs_root demo_asset_root [blank_collection, legacy_collection] =
     specs_of_collections ascii_runtime demo_fs_root demo_asset_root [legacy_collection] \<and>
   process_collections env_up [ustr ''Texture''] [blank_collection] tally0 world0 = (Inr tally0, world0) \<and>
   col_name_of [(ustr ''collection-name'', JStr [])] = JStr (ustr ''collection'') \<and>
   sub_name_of [(ustr ''subcollection-name'', JStr [])] = JStr (ustr ''subcollection'') \<and>
   lower_ok (lower ascii_runtime) \<and>
   slugify ascii_runtime (ustr '' '') = ustr ''unnamed'' \<and>
   path_exists (snd (create_collections ascii_runtime env_up [ustr ''Texture'']
       [JObj [(ustr ''collection-name'', JStr [])]] summary0 world0))
     [ustr ''Texture'', ustr ''collection''] \<and>
   path_exists (snd (create_collections ascii_runtime env_up [ustr ''Texture'']
       [blank_collection] summary0 world0))
     [ustr ''Texture'', ustr ''collection'', ustr ''unnamed''] \<and>
   path_exists (snd (create_collections ascii_runtime env_up [ustr ''Texture'']
       [blank_collection] summary0 world0))
     [ustr ''Texture'', ustr ''collection'', ustr ''subcollection''] \<and>
   path_exists (snd (create_subcollections ascii_runtime env_up [ustr ''Texture'', ustr ''collection'']
       [JObj [(ustr ''subcollection-name'', JStr [])]] summary0 world0))
     [ustr ''Texture'', ustr ''collection'', ustr ''subcollection'']"
proof -
  note th = blank_names_dropped [of blank_collection ascii_runtime demo_fs_root demo_asset_root
      "[legacy_collection]" env_up "[ustr ''Texture'']" tally0 world0
      "JObj [(ustr ''subcollection-name'', JStr [])]" "ustr ''Wools''" "ustr ''Wools''" "[]"
      "[(ustr ''collection-name'', JStr [])]" "ustr '' ''" "ustr ''collection''" "[ustr ''Texture'']"
      "[]" summary0 world0]
  have n1: "\<not> truthy (obj_get [(ustr ''collection-name'', JStr [])] ''collection-name'')"
    "\<not> truthy (obj_get [(ustr ''collection-name'', JStr [])] ''name'')"
    by (simp_all add: obj_get_def truthy_def ustr_def)
  have c: "col_name_of [(ustr ''collection-name'', JStr [])] = JStr (ustr ''collection'')"
    using th n1 by blast
  have n2: "\<not> truthy (obj_get [(ustr ''subcollection-name'', JStr [])] ''subcollection-name'')"
    "\<not> truthy (obj_get [(ustr ''subcollection-name'', JStr [])] ''name'')"
    by (simp_all add: obj_get_def truthy_def ustr_def)
  note th2 = blank_names_dropped [of blank_collection ascii_runtime demo_fs_root demo_asset_root
      "[]" env_up "[ustr ''Texture'']" tally0 world0
      "JObj [(ustr ''subcollection-name'', JStr [])]" "ustr ''Wools''" "ustr ''Wools''" "[]"
      "[(ustr ''subcollection-name'', JStr [])]" "ustr '' ''" "ustr ''collection''" "[ustr ''Texture'']"
      "[]" summary0 world0]
  have s: "sub_name_of [(ustr ''subcollection-name'', JStr [])] = JStr (ustr ''subcollection'')"
    using th2 n2 by blast
  have sp: "\<forall>c \<in> set (ustr '' ''). py_isspace c" by (simp add: ustr_def py_isspace_def)
  have u: "slugify ascii_runtime (ustr '' '') = ustr ''unnamed''"
    using th lower_ok_ascii_runtime sp by blast
  have 1: "specs_of_collections ascii_runtime demo_fs_root demo_asset_root [blank_collection, legacy_collection] =
     specs_of_collections ascii_runtime demo_fs_root demo_asset_root [legacy_collection]"
    using th blank_name by blast
  have 2: "process_collections env_up [ustr ''Texture''] [blank_collection] tally0 world0 = (Inr tally0, world0)"
    using th2 blank_name by simp
  have 3: "path_exists (snd (create_collections ascii_runtime env_up [ustr ''Texture'']
       [JObj [(ustr ''collection-name'', JStr [])]] summary0 world0))
     ([ustr ''Texture''] @ [slugify ascii_runtime (ustr ''collection'')])"
    using th c env_up_permissive by blast
  let ?bk = "[(ustr ''collection-name'', JStr []),
           (ustr ''subcollection'',
            JArr [JObj [(ustr ''subcollection-name'', JStr (ustr '' ''))],
                  JObj [(ustr ''subcollection-name'', JStr [])]])]"
  let ?subs = "[JObj [(ustr ''subcollection-name'', JStr (ustr '' ''))],
                JObj [(ustr ''subcollection-name'', JStr [])]]"
  have bc: "blank_collection = JObj ?bk" by (simp add: blank_collection_def)
  have cb: "col_name_of ?bk = JStr (ustr ''collection'')"
    by (simp add: col_name_of_def json_defs ustr_def)
  have it: "py_iter (py_or (obj_get ?bk ''subcollection'') (JArr [])) = Inr ?subs"
    by (simp add: json_defs ustr_def)
  have s1: "sub_name_of [(ustr ''subcollection-name'', JStr (ustr '' ''))] = JStr (ustr '' '')"
    by (simp add: sub_name_of_def json_defs ustr_def)
  have wf: "\<forall>x \<in> set ?subs. \<exists>xkvs n. x = JObj xkvs \<and> sub_name_of xkvs = JStr n"
    using s1 s by simp
  have wf1: "\<forall>x \<in> set [JObj [(ustr ''subcollection-name'', JStr [])]].
      \<exists>xkvs n. x = JObj xkvs \<and> sub_name_of xkvs = JStr n"
    using s by simp
  note tha = blank_names_dropped [where R = ascii_runtime and env = env_up and kvs = ?bk
      and col_name = "ustr ''collection''" and dest = "[ustr ''Texture'']" and rest = "[]"
      and sm = summary0 and fs = world0 and sublist = ?subs
      and skvs = "[(ustr ''subcollection-name'', JStr (ustr '' ''))]" and sub_name = "ustr '' ''"]
  note thb = blank_names_dropped [where R = ascii_runtime and env = env_up and kvs = ?bk
      and col_name = "ustr ''collection''" and dest = "[ustr ''Texture'']" and rest = "[]"
      and sm = summary0 and fs = world0 and sublist = ?subs
      and skvs = "[(ustr ''subcollection-name'', JStr [])]" and sub_name = "ustr ''subcollection''"]
  note thc = blank_names_dropped [where R = ascii_runtime and env = env_up
      and col_path = "[ustr ''Texture'', ustr ''collection'']"
      and sm = summary0 and fs = world0 and sublist = "[JObj [(ustr ''subcollection-name'', JStr [])]]"
      and skvs = "[(ustr ''subcollection-name'', JStr [])]" and sub_name = "ustr ''subcollection''"]
  have 4: "path_exists (snd (create_collections ascii_runtime env_up [ustr ''Texture'']
       [blank_collection] summary0 world0))
     ([ustr ''Texture''] @ [slugify ascii_runtime (ustr ''collection''), slugify ascii_runtime (ustr '' '')])"
    unfolding bc using tha cb it env_up_permissive wf s1 by simp
  have 5: "path_exists (snd (create_collections ascii_runtime env_up [ustr ''Texture'']
       [blank_collection] summary0 world0))
     ([ustr ''Texture''] @ [slugify ascii_runtime (ustr ''collection''),
        slugify ascii_runtime (ustr ''subcollection'')])"
    unfolding bc using thb cb it env_up_permissive wf s by simp
  have 6: "path_exists (snd (create_subcollections ascii_runtime env_up [ustr ''Texture'', ustr ''collection'']
       [JObj [(ustr ''subcollection-name'', JStr [])]] summary0 world0))
     ([ustr ''Texture'', ustr ''collection''] @ [slugify ascii_runtime (ustr ''subcollection'')])"
    using thc env_up_permissive wf1 s by simp
  show ?thesis
    using blank_name 1 2 c s lower_ok_ascii_runtime u 3 4 5 6
    by (simp add: slug_collection slug_blank slug_subcollection)
qed

text \<open>
  C2, as stated, fails: the bare-string Variation \<open>Red\<close> of an old-schema catalog has no
  pattern, and \<open>build_material_specs\<close> produces an AssetSpec for it.
\<close>

theorem bare_string_counterexample:
  "get_variation_pattern (JStr (ustr ''Red'')) = Inr None \<and>
   build_material_specs ascii_runtime (JArr [legacy_collection]) demo_fs_root demo_asset_root =
   Inr [\<lparr> name = ustr ''MI_WOOLS_HEAVY_RED'',
          package_path = ustr ''/Game/Materials/MayerFabrics/Wools/Heavy'',
          asset_path = ustr ''/Game/Materials/MayerFabrics/Wools/Heavy/MI_WOOLS_HEAVY_RED'',
          object_path = ustr ''/Game/Materials/MayerFabrics/Wools/Heavy/MI_WOOLS_HEAVY_RED.MI_WOOLS_HEAVY_RED'',
          filesystem_path = [ustr ''Content'', ustr ''Materials'', ustr ''MayerFabrics'',
                             ustr ''Wools'', ustr ''Heavy'', ustr ''MI_WOOLS_HEAVY_RED.uasset''],
          parent = ustr ''/Game/Materials/MI_Sample.MI_Sample'' \<rparr>]"
  using bare_string_no_pattern legacy_specs by blast

text \<open>
  C2, amended. In \<open>process_all\<close> a Variation with no usable pattern (every bare string among
  them) starts no download, adds one to \<open>failed\<close> and appends its own entry
  \<open>Sin 'variation-pattern' -> collection/subcollection\<close> to the errors, and the run goes on
  in the same state. \<open>build_material_specs\<close> does not look at the pattern: the label of a
  bare string is the string itself; a Variation whose label, collection and
  subcollection tokens are all non-empty gets an AssetSpec named from them, and one
  whose label token is empty is dropped with no error recorded.
\<close>

theorem patternless_variation:
  "(get_variation_pattern var = Inr None \<longrightarrow>
      process_variations env coll_name sub_name target_dir (var # vars) t w =
        process_variations env coll_name sub_name target_dir vars
          (t\<lparr>failed := failed t + 1,
             errors := errors t @ [no_pattern_error coll_name sub_name]\<rparr>) w) \<and>
   get_variation_pattern (JStr s) = Inr None \<and>
   get_variation_label R (JStr s) = Inr (py_strip s) \<and>
   (get_variation_label R var = Inr label \<and>
    sanitize_token R (Some coll_name) \<noteq> [] \<and> sanitize_token R (Some sub_name) \<noteq> [] \<and>
    sanitize_token R (Some label) \<noteq> [] \<and>
    specs_of_variations R base_fs base_asset coll_name coll_folder sub_name sub_folder vars = Inr specs
    \<longrightarrow>
      (\<exists>spec. name spec = ustr ''MI_'' @ sanitize_token R (Some coll_name) @ ustr ''_'' @
                    sanitize_token R (Some sub_name) @ ustr ''_'' @ sanitize_token R (Some label) \<and>
         specs_of_variations R base_fs base_asset coll_name coll_folder sub_name sub_folder
           (var # vars) = Inr (spec # specs))) \<and>
   (get_variation_label R var = Inr label \<and> sanitize_token R (Some label) = [] \<longrightarrow>
      specs_of_variations R base_fs base_asset coll_name coll_folder sub_name sub_folder (var # vars) =
      specs_of_variations R base_fs base_asset coll_name coll_folder sub_name sub_folder vars)"
proof (intro conjI impI)
  show "get_variation_pattern (JStr s) = Inr None" by (rule bare_string_no_pattern)
  show "get_variation_label R (JStr s) = Inr (py_strip s)" by (rule bare_string_label)
next
  assume "get_variation_pattern var = Inr None"
  then show "process_variations env coll_name sub_name target_dir (var # vars) t w =
        process_variations env coll_name sub_name target_dir vars
          (t\<lparr>failed := failed t + 1,
             errors := errors t @ [no_pattern_error coll_name sub_name]\<rparr>) w"
    by simp
next
  assume "get_variation_label R var = Inr label \<and>
    sanitize_token R (Some coll_name) \<noteq> [] \<and> sanitize_token R (Some sub_name) \<noteq> [] \<and>
    sanitize_token R (Some label) \<noteq> [] \<and>
    specs_of_variations R base_fs base_asset coll_name coll_folder sub_name sub_folder vars = Inr specs"
  then show "\<exists>spec. name spec = ustr ''MI_'' @ sanitize_token R (Some coll_name) @ ustr ''_'' @
                    sanitize_token R (Some sub_name) @ ustr ''_'' @ sanitize_token R (Some label) \<and>
         specs_of_variations R base_fs base_asset coll_name coll_folder sub_name sub_folder
           (var # vars) = Inr (spec # specs)"
    by (simp add: Let_def del: sanitize_token.simps)
next
  assume "get_variation_label R var = Inr label \<and> sanitize_token R (Some label) = []"
  then show "specs_of_variations R base_fs base_asset coll_name coll_folder sub_name sub_folder (var # vars) =
      specs_of_variations R base_fs base_asset coll_name coll_folder sub_name sub_folder vars"
    by (simp add: Let_def del: sanitize_token.simps)
qed


lemma tok_bang: "sanitize_token ascii_runtime (Some (ustr ''!'')) = []"
  by (simp add: ascii_runtime_def str_defs tok_defs)

lemma strip_bang: "py_strip (ustr ''!'') = ustr ''!''"
  by (simp add: str_defs)

theorem patternless_variation_witness:
  "get_variation_pattern (JStr (ustr ''Red'')) = Inr None \<and>
   process_variations env_up (ustr ''Wools'') (ustr ''Heavy'') demo_dir [JStr (ustr ''Red'')] tally0 world0 =
     (Inr (tally0\<lparr>failed := 1, errors := [no_pattern_error (ustr ''Wools'') (ustr ''Heavy'')]\<rparr>),
      world0) \<and>
   get_variation_label ascii_runtime (JStr (ustr ''Red'')) = Inr (ustr ''Red'') \<and>
   sanitize_token ascii_runtime (Some (ustr ''Wools'')) = ustr ''WOOLS'' \<and>
   sanitize_token ascii_runtime (Some (ustr ''Heavy'')) = ustr ''HEAVY'' \<and>
   sanitize_token ascii_runtime (Some (ustr ''Red'')) = ustr ''RED'' \<and>
   (\<exists>spec. name spec = ustr ''MI_WOOLS_HEAVY_RED'' \<and>
      specs_of_variations ascii_runtime demo_fs_root demo_asset_root (ustr ''Wools'') (ustr ''Wools'')
        (ustr ''Heavy'') (ustr ''Heavy'') [JStr (ustr ''Red'')] = Inr [spec]) \<and>
   get_variation_label ascii_runtime (JStr (ustr ''!'')) = Inr (ustr ''!'') \<and>
   sanitize_token ascii_runtime (Some (ustr ''!'')) = [] \<and>
   specs_of_variations ascii_runtime demo_fs_root demo_asset_root (ustr ''Wools'') (ustr ''Wools'')
     (ustr ''Heavy'') (ustr ''Heavy'') [JStr (ustr ''!'')] = Inr []"
proof -
  note th = patternless_variation [of "JStr (ustr ''Red'')" env_up "ustr ''Wools''" "ustr ''Heavy''"
      demo_dir "[]" tally0 world0 "ustr ''Red''" ascii_runtime "ustr ''Red''" demo_fs_root
      demo_asset_root "ustr ''Wools''" "ustr ''Heavy''" "[]"]
  note th2 = patternless_variation [of "JStr (ustr ''!'')" env_up "ustr ''Wools''" "ustr ''Heavy''"
      demo_dir "[]" tally0 world0 "ustr ''!''" ascii_runtime "ustr ''!''" demo_fs_root
      demo_asset_root "ustr ''Wools''" "ustr ''Heavy''" "[]"]
  have p: "get_variation_pattern (JStr (ustr ''Red'')) = Inr None" using th by blast
  have 1: "process_variations env_up (ustr ''Wools'') (ustr ''Heavy'') demo_dir [JStr (ustr ''Red'')] tally0 world0 =
     (Inr (tally0\<lparr>failed := 1, errors := [no_pattern_error (ustr ''Wools'') (ustr ''Heavy'')]\<rparr>),
      world0)"
    using th p by (simp add: tally0_def)
  have l: "get_variation_label ascii_runtime (JStr (ustr ''Red'')) = Inr (ustr ''Red'')"
    using th by (simp add: strip_red)
  have e: "specs_of_variations ascii_runtime demo_fs_root demo_asset_root (ustr ''Wools'') (ustr ''Wools'')
        (ustr ''Heavy'') (ustr ''Heavy'') [] = Inr []" by simp
  have n: "sanitize_token ascii_runtime (Some (ustr ''Wools'')) \<noteq> []"
    "sanitize_token ascii_runtime (Some (ustr ''Heavy'')) \<noteq> []"
    "sanitize_token ascii_runtime (Some (ustr ''Red'')) \<noteq> []"
    unfolding tok_wools tok_heavy tok_red by (simp_all add: ustr_def)
  from th l n e have "\<exists>spec. name spec = ustr ''MI_'' @ sanitize_token ascii_runtime (Some (ustr ''Wools'')) @ ustr ''_'' @
        sanitize_token ascii_runtime (Some (ustr ''Heavy'')) @ ustr ''_'' @
        sanitize_token ascii_runtime (Some (ustr ''Red'')) \<and>
      specs_of_variations ascii_runtime demo_fs_root demo_asset_root (ustr ''Wools'') (ustr ''Wools'')
        (ustr ''Heavy'') (ustr ''Heavy'') [JStr (ustr ''Red'')] = Inr [spec]"
    by blast
  moreover have "ustr ''MI_'' @ ustr ''WOOLS'' @ ustr ''_'' @ ustr ''HEAVY'' @ ustr ''_'' @ ustr ''RED''
      = ustr ''MI_WOOLS_HEAVY_RED''" by (simp add: ustr_def)
  ultimately have 2: "\<exists>spec. name spec = ustr ''MI_WOOLS_HEAVY_RED'' \<and>
      specs_of_variations ascii_runtime demo_fs_root demo_asset_root (ustr ''Wools'') (ustr ''Wools'')
        (ustr ''Heavy'') (ustr ''Heavy'') [JStr (ustr ''Red'')] = Inr [spec]"
    by (simp only: tok_wools tok_heavy tok_red)
  have l2: "get_variation_label ascii_runtime (JStr (ustr ''!'')) = Inr (ustr ''!'')"
    using th2 by (simp add: strip_bang)
  from th2 l2 tok_bang e
  have 3: "specs_of_variations ascii_runtime demo_fs_root demo_asset_root (ustr ''Wools'') (ustr ''Wools'')
     (ustr ''Heavy'') (ustr ''Heavy'') [JStr (ustr ''!'')] = Inr []"
    by (simp del: sanitize_token.simps specs_of_variations.simps)
  show ?thesis using p 1 l tok_wools tok_heavy tok_red 2 l2 tok_bang 3 by blast
qed

text \<open>
  C3. On a catalog of the old schema the adapters of create_materials.py and
  downloadTextures.py resolve the collection name \<open>Wools\<close> from the field \<open>collection\<close>, while
  \<open>create_structure\<close> of create-folders.py reads \<open>name\<close> instead, finds nothing, and makes the
  directory \<open>collection\<close>.
\<close>

theorem legacy_collection_folder:
  "get_collection_name legacy_collection = Inr (ustr ''Wools'') \<and>
   create_structure ascii_runtime env_up [legacy_collection] [ustr ''Texture''] world0 =
   (Inr \<lparr> created_collections = 1, existing_collections = 0,
           created_subcollections = 1, existing_subcollections = 0 \<rparr>,
    world0\<lparr>dirs := {[ustr ''Texture''], [ustr ''Texture'', ustr ''collection''],
                     [ustr ''Texture'', ustr ''collection'', ustr ''heavy'']}\<rparr>)"
  using legacy_name legacy_structure by blast

end
